theory Spec2Isabelle
  imports Main "HOL-Library.Word" "HOL-Library.Char_ord" "HOL-Library.List_Lexorder"
begin

unbundle bit_operations_syntax

section \<open>Data model\<close>

text \<open>
  Inode numbers are 64-bit identifiers, hashes are 20-byte content addresses and
  modes are \<open>mode_t\<close> values.  Points in time are kept abstract.
\<close>

type_synonym InodeNumber = "64 word"
type_synonym Hash = "160 word"
type_synonym mode_t = "32 word"
type_synonym timespec = nat
type_synonym PathComponent = string

text \<open>The root inode number is the FUSE root id.\<close>

definition kRootNodeId :: InodeNumber where
  "kRootNodeId = 1"

definition kDotEdenName :: PathComponent where
  "kDotEdenName = ''.eden''"

subsection \<open>errno values and exceptions\<close>

definition EPERM :: int where "EPERM = 1"
definition ENOENT :: int where "ENOENT = 2"
definition EIO :: int where "EIO = 5"
definition EBADF :: int where "EBADF = 9"
definition EEXIST :: int where "EEXIST = 17"
definition ENOTDIR :: int where "ENOTDIR = 20"
definition EISDIR :: int where "EISDIR = 21"
definition ENOTEMPTY :: int where "ENOTEMPTY = 39"

datatype error_category = system_category | generic_category

text \<open>
  An exception travelling through a future: a \<open>std::system_error\<close> with its error code
  (category and value), an internal bug report (\<open>EDEN_BUG\<close>), or any other exception.
\<close>

datatype exn =
    SystemError error_category int
  | EdenBug string
  | OtherException string

text \<open>
  Modelled from the spec: \<open>InodeError\<close> (declared in InodeError.h) is the typed filesystem
  error; it is a \<open>std::system_error\<close> carrying the errno, and a \<open>NotFound\<close> raised by a
  lookup is the one the dispatch adapter turns into a negative reply.
\<close>

definition InodeError :: "int \<Rightarrow> exn" where
  "InodeError errnum = SystemError system_category errnum"

subsection \<open>Source-control trees\<close>

datatype TreeEntryType = TREE | REGULAR_FILE | EXECUTABLE_FILE | SYMLINK

record TreeEntry =
  te_name :: PathComponent
  te_type :: TreeEntryType
  te_hash :: Hash

record Tree =
  tree_hash :: Hash
  tree_entries :: "TreeEntry list"

definition S_IFMT :: mode_t where "S_IFMT = 0xF000"
definition S_IFDIR :: mode_t where "S_IFDIR = 0x4000"
definition S_IFREG :: mode_t where "S_IFREG = 0x8000"
definition S_IFLNK :: mode_t where "S_IFLNK = 0xA000"

definition S_ISDIR :: "mode_t \<Rightarrow> bool" where
  "S_ISDIR m \<longleftrightarrow> (m AND S_IFMT) = S_IFDIR"

text \<open>
  Modelled from the spec: \<open>modeFromTreeEntryType\<close> (declared with TreeEntry) gives an entry
  its mode, the file type of the source-control entry together with permission bits.
\<close>

fun modeFromTreeEntryType :: "TreeEntryType \<Rightarrow> mode_t" where
  "modeFromTreeEntryType TREE = (S_IFDIR OR 0x1ED)"
| "modeFromTreeEntryType REGULAR_FILE = (S_IFREG OR 0x1A4)"
| "modeFromTreeEntryType EXECUTABLE_FILE = (S_IFREG OR 0x1ED)"
| "modeFromTreeEntryType SYMLINK = (S_IFLNK OR 0x1ED)"

subsection \<open>Directory state\<close>

text \<open>
  Modelled from the spec: \<open>Entry\<close> and \<open>Dir\<close> are declared in TreeInode.h.  An entry has a
  mode, an optional source-control hash (absent when the entry is materialized), an
  optional inode number, and a pointer to the loaded inode object, if any.  A pointer to
  an inode object is represented by that object's inode number.
\<close>

record Entry =
  mode :: mode_t
  hash :: "Hash option"
  inodeNumber :: "InodeNumber option"
  inode :: "InodeNumber option"

definition EntryFromHash :: "mode_t \<Rightarrow> Hash \<Rightarrow> Entry" where
  "EntryFromHash m h = \<lparr>mode = m, hash = Some h, inodeNumber = None, inode = None\<rparr>"

definition EntryFromNumber :: "mode_t \<Rightarrow> InodeNumber \<Rightarrow> Entry" where
  "EntryFromNumber m n = \<lparr>mode = m, hash = None, inodeNumber = Some n, inode = None\<rparr>"

definition isMaterializedE :: "Entry \<Rightarrow> bool" where
  "isMaterializedE e \<longleftrightarrow> hash e = None"

definition isDirectory :: "Entry \<Rightarrow> bool" where
  "isDirectory e \<longleftrightarrow> S_ISDIR (mode e)"

definition hasInodeNumber :: "Entry \<Rightarrow> bool" where
  "hasInodeNumber e \<longleftrightarrow> inodeNumber e \<noteq> None"

definition setMaterializedE :: "InodeNumber \<Rightarrow> Entry \<Rightarrow> Entry" where
  "setMaterializedE n e = e\<lparr>hash := None, inodeNumber := Some n\<rparr>"

definition setDematerializedE :: "Hash \<Rightarrow> Entry \<Rightarrow> Entry" where
  "setDematerializedE h e = e\<lparr>hash := Some h\<rparr>"

record InodeTimestamps =
  atime :: timespec
  ctime :: timespec
  mtime :: timespec

definition setAll :: "timespec \<Rightarrow> InodeTimestamps" where
  "setAll t = \<lparr>atime = t, ctime = t, mtime = t\<rparr>"

record Dir =
  entries :: "(PathComponent \<times> Entry) list"
  treeHash :: "Hash option"
  timeStamps :: InodeTimestamps

definition emptyDir :: Dir where
  "emptyDir = \<lparr>entries = [], treeHash = None, timeStamps = setAll 0\<rparr>"

definition isMaterialized :: "Dir \<Rightarrow> bool" where
  "isMaterialized d \<longleftrightarrow> treeHash d = None"

definition setMaterialized :: "Dir \<Rightarrow> Dir" where
  "setMaterialized d = d\<lparr>treeHash := None\<rparr>"

text \<open>
  The entry table is a \<open>PathMap\<close>: a vector of (name, entry) pairs kept sorted by name,
  with at most one entry per name.  \<open>emplace\<close> leaves the table alone when the name is
  already present.
\<close>

definition pm_find :: "(PathComponent \<times> Entry) list \<Rightarrow> PathComponent \<Rightarrow> Entry option" where
  "pm_find es nm = map_of es nm"

definition pm_emplace ::
  "PathComponent \<Rightarrow> Entry \<Rightarrow> (PathComponent \<times> Entry) list \<Rightarrow> (PathComponent \<times> Entry) list" where
  "pm_emplace nm e es = (if map_of es nm \<noteq> None then es else insort_key fst (nm, e) es)"

definition pm_erase ::
  "PathComponent \<Rightarrow> (PathComponent \<times> Entry) list \<Rightarrow> (PathComponent \<times> Entry) list" where
  "pm_erase nm es = filter (\<lambda>p. fst p \<noteq> nm) es"

definition pm_update ::
  "PathComponent \<Rightarrow> Entry \<Rightarrow> (PathComponent \<times> Entry) list \<Rightarrow> (PathComponent \<times> Entry) list" where
  "pm_update nm e es = map (\<lambda>p. if fst p = nm then (nm, e) else p) es"

subsection \<open>Building a directory from a source-control tree\<close>

definition buildDirFromTree :: "Tree option \<Rightarrow> timespec \<Rightarrow> Dir" where
  "buildDirFromTree tree lastCheckoutTime =
     (case tree of
        None \<Rightarrow> emptyDir
      | Some t \<Rightarrow>
          \<lparr>entries =
             foldl (\<lambda>es treeEntry.
                      pm_emplace (te_name treeEntry)
                        (EntryFromHash (modeFromTreeEntryType (te_type treeEntry))
                           (te_hash treeEntry)) es)
               [] (tree_entries t),
           treeHash = Some (tree_hash t),
           timeStamps = setAll lastCheckoutTime\<rparr>)"

subsection \<open>getattr\<close>

record stat =
  st_mode :: mode_t
  st_ino :: "64 word"
  st_nlink :: "64 word"
  st_atim :: timespec
  st_ctim :: timespec
  st_mtim :: timespec

text \<open>
  \<open>getAttrLocked\<close> starts from the mount's initial stat data and fills in the fields of
  a directory.
\<close>

definition getAttrLocked :: "stat \<Rightarrow> InodeNumber \<Rightarrow> Dir \<Rightarrow> stat" where
  "getAttrLocked initStatData nodeId contents =
     initStatData
       \<lparr>st_mode := S_IFDIR OR 0x1ED,
        st_ino := nodeId,
        st_atim := atime (timeStamps contents),
        st_ctim := ctime (timeStamps contents),
        st_mtim := mtime (timeStamps contents),
        st_nlink := of_nat (length (entries contents)) + 2\<rparr>"


section \<open>The mount: inodes, inode map, overlay, journal\<close>

text \<open>
  A loaded tree inode with its location: its number, the name it has in its parent,
  whether it has been unlinked, and its contents.
\<close>

record TreeInode =
  nodeId :: InodeNumber
  location_name :: PathComponent
  location_unlinked :: bool
  contents :: Dir

text \<open>The other loaded inode objects: files, and directories that nothing walks through.\<close>

datatype InodeKind = FileInode mode_t "Hash option" | TreeInodeObj Dir

record LoadedInode =
  li_name :: PathComponent
  li_unlinked :: bool
  li_kind :: InodeKind

datatype OverlayData = OverlayDir Dir | OverlayFile timespec

datatype JournalDelta = CREATED "PathComponent list" | REMOVED "PathComponent list"

text \<open>
  The state of a mount.  \<open>chain\<close> is a path of loaded tree inodes, leaf first: the inode
  at position \<open>Suc i\<close> is the parent of the inode at position \<open>i\<close>, and the last one has no
  parent.  A \<open>this\<close> pointer to one of them is its position.  \<open>loaded\<close> holds the other
  loaded inode objects by number.  \<open>history\<close> records the inode chain and the overlay after
  every write to either of them, in program order, so that the states in which an
  operation can be interrupted can be spoken about.

  Modelled from the spec: the inode map (InodeMap.h) allocates inode numbers monotonically
  and knows which inodes are being loaded; the overlay (Overlay.h) keeps per-inode
  directory listings and file data; the object store (ObjectStore.h) fetches trees by hash;
  the journal is append-only.
\<close>

record mount =
  chain :: "TreeInode list"
  loaded :: "InodeNumber \<Rightarrow> LoadedInode option"
  loading :: "InodeNumber list"
  nextInodeNumber :: InodeNumber
  overlay :: "InodeNumber \<Rightarrow> OverlayData option"
  objectStore :: "Hash \<Rightarrow> Tree option"
  journal :: "JournalDelta list"
  fuseInvalidations :: "(InodeNumber \<times> PathComponent) list"
  fuseRefcount :: "InodeNumber \<Rightarrow> nat"
  hasFuseChannel :: bool
  isFuseRequest :: bool
  dotEdenInodeNumber :: InodeNumber
  lastCheckoutTime :: timespec
  history :: "(TreeInode list \<times> (InodeNumber \<Rightarrow> OverlayData option)) list"

definition snapshot :: "mount \<Rightarrow> mount" where
  "snapshot st = st\<lparr>history := history st @ [(chain st, overlay st)]\<rparr>"

text \<open>A write to the contents of the tree inode at position \<open>i\<close>, under its contents lock.\<close>

definition setContents :: "nat \<Rightarrow> Dir \<Rightarrow> mount \<Rightarrow> mount" where
  "setContents i d st =
     snapshot (st\<lparr>chain := (chain st)[i := (chain st ! i)\<lparr>contents := d\<rparr>]\<rparr>)"

definition setEntries :: "nat \<Rightarrow> (PathComponent \<times> Entry) list \<Rightarrow> mount \<Rightarrow> mount" where
  "setEntries i es st = setContents i ((contents (chain st ! i))\<lparr>entries := es\<rparr>) st"

definition setUnlinked :: "nat \<Rightarrow> mount \<Rightarrow> mount" where
  "setUnlinked i st =
     snapshot (st\<lparr>chain := (chain st)[i := (chain st ! i)\<lparr>location_unlinked := True\<rparr>]\<rparr>)"

text \<open>
  Modelled from the spec: \<open>saveOverlayDir(N, Dir)\<close> persists the listing of inode \<open>N\<close>
  (entries, timestamps, optional tree hash); pointers to loaded inode objects are not part
  of what is persisted.  \<open>removeOverlayData(N)\<close> deletes what the overlay has for \<open>N\<close>,
  \<open>createOverlayFile(N, t)\<close> creates an overlay file.
\<close>

definition serializeDir :: "Dir \<Rightarrow> Dir" where
  "serializeDir d = d\<lparr>entries := map (\<lambda>p. (fst p, (snd p)\<lparr>inode := None\<rparr>)) (entries d)\<rparr>"

definition saveOverlayDir :: "InodeNumber \<Rightarrow> Dir \<Rightarrow> mount \<Rightarrow> mount" where
  "saveOverlayDir n d st =
     snapshot (st\<lparr>overlay := (overlay st)(n \<mapsto> OverlayDir (serializeDir d))\<rparr>)"

definition removeOverlayData :: "InodeNumber \<Rightarrow> mount \<Rightarrow> mount" where
  "removeOverlayData n st = snapshot (st\<lparr>overlay := (overlay st)(n := None)\<rparr>)"

definition createOverlayFile :: "InodeNumber \<Rightarrow> timespec \<Rightarrow> mount \<Rightarrow> mount" where
  "createOverlayFile n t st = snapshot (st\<lparr>overlay := (overlay st)(n \<mapsto> OverlayFile t)\<rparr>)"

definition loadOverlayDir :: "mount \<Rightarrow> InodeNumber \<Rightarrow> Dir option" where
  "loadOverlayDir st n = (case overlay st n of Some (OverlayDir d) \<Rightarrow> Some d | _ \<Rightarrow> None)"

definition allocateInodeNumber :: "mount \<Rightarrow> InodeNumber \<times> mount" where
  "allocateInodeNumber st = (nextInodeNumber st, st\<lparr>nextInodeNumber := nextInodeNumber st + 1\<rparr>)"

definition invalidateFuseCache :: "nat \<Rightarrow> PathComponent \<Rightarrow> mount \<Rightarrow> mount" where
  "invalidateFuseCache i nm st =
     (if hasFuseChannel st
      then st\<lparr>fuseInvalidations := fuseInvalidations st @ [(nodeId (chain st ! i), nm)]\<rparr>
      else st)"

definition invalidateFuseCacheIfRequired :: "nat \<Rightarrow> PathComponent \<Rightarrow> mount \<Rightarrow> mount" where
  "invalidateFuseCacheIfRequired i nm st =
     (if isFuseRequest st then st else invalidateFuseCache i nm st)"

section \<open>Materialization\<close>

text \<open>
  The functions below are methods of the tree inode at position \<open>i\<close> of the chain.  They
  return the exception that left them, if any, and the state.  \<open>EDEN_BUG\<close> throws.
\<close>

function childMaterialized ::
  "nat \<Rightarrow> PathComponent \<Rightarrow> InodeNumber \<Rightarrow> mount \<Rightarrow> exn option \<times> mount" where
  "childMaterialized i childName childNodeId st =
     (case pm_find (entries (contents (chain st ! i))) childName of
        None \<Rightarrow> (Some (EdenBug ''error attempting to materialize: entry not present''), st)
      | Some childEntry \<Rightarrow>
          if isMaterialized (contents (chain st ! i)) \<and> isMaterializedE childEntry
          then (None, st)
          else
            let st1 = setEntries i
                        (pm_update childName (setMaterializedE childNodeId childEntry)
                           (entries (contents (chain st ! i)))) st;
                st2 = setContents i (setMaterialized (contents (chain st1 ! i))) st1;
                st3 = saveOverlayDir (nodeId (chain st2 ! i)) (contents (chain st2 ! i)) st2
            in if Suc i < length (chain st3) \<and> \<not> location_unlinked (chain st3 ! i)
               then childMaterialized (Suc i) (location_name (chain st3 ! i))
                      (nodeId (chain st3 ! i)) st3
               else (None, st3))"
  by pat_completeness auto
termination
  by (relation "measure (\<lambda>(i, _, _, st). length (chain st) - i)")
    (auto simp: setEntries_def setContents_def saveOverlayDir_def snapshot_def)

definition materialize :: "bool \<Rightarrow> nat \<Rightarrow> mount \<Rightarrow> exn option \<times> mount" where
  "materialize haveRenameLock i st =
     (if \<not> haveRenameLock \<and> isMaterialized (contents (chain st ! i)) then (None, st)
      else if isMaterialized (contents (chain st ! i)) then (None, st)
      else
        let st1 = setContents i (setMaterialized (contents (chain st ! i))) st;
            st2 = saveOverlayDir (nodeId (chain st1 ! i)) (contents (chain st1 ! i)) st1
        in if Suc i < length (chain st2) \<and> \<not> location_unlinked (chain st2 ! i)
           then childMaterialized (Suc i) (location_name (chain st2 ! i))
                  (nodeId (chain st2 ! i)) st2
           else (None, st2))"

definition childDematerialized ::
  "nat \<Rightarrow> PathComponent \<Rightarrow> Hash \<Rightarrow> mount \<Rightarrow> exn option \<times> mount" where
  "childDematerialized i childName childScmHash st =
     (case pm_find (entries (contents (chain st ! i))) childName of
        None \<Rightarrow> (Some (EdenBug ''error attempting to dematerialize: entry not present''), st)
      | Some childEntry \<Rightarrow>
          if \<not> isMaterializedE childEntry \<and> hash childEntry = Some childScmHash
          then (None, st)
          else
            let st1 = setEntries i
                        (pm_update childName (setDematerializedE childScmHash childEntry)
                           (entries (contents (chain st ! i)))) st;
                st2 = setContents i (setMaterialized (contents (chain st1 ! i))) st1;
                st3 = saveOverlayDir (nodeId (chain st2 ! i)) (contents (chain st2 ! i)) st2
            in if Suc i < length (chain st3) \<and> \<not> location_unlinked (chain st3 ! i)
               then childMaterialized (Suc i) (location_name (chain st3 ! i))
                      (nodeId (chain st3 ! i)) st3
               else (None, st3))"


section \<open>Loading children\<close>

text \<open>
  A future, seen when the calling operation has run as far as it can on its own: it has a
  value, it has failed, or it waits for the load of an inode that someone else carries out.
\<close>

datatype 'a future = Ready 'a | Failed exn | Pending InodeNumber

definition chainIndex :: "mount \<Rightarrow> InodeNumber \<Rightarrow> nat option" where
  "chainIndex st n =
     (if n \<in> set (map nodeId (chain st))
      then Some (length (takeWhile (\<lambda>t. nodeId t \<noteq> n) (chain st)))
      else None)"

text \<open>The object an inode pointer refers to: its dynamic type and, for a tree, its contents.\<close>

definition inodeKindOf :: "mount \<Rightarrow> InodeNumber \<Rightarrow> InodeKind option" where
  "inodeKindOf st p =
     (case chainIndex st p of
        Some k \<Rightarrow> Some (TreeInodeObj (contents (chain st ! k)))
      | None \<Rightarrow> map_option li_kind (loaded st p))"

text \<open>
  Modelled from the spec: \<open>shouldLoadChild\<close> registers the waiter and returns true iff no
  load of that inode is in progress, so that the caller must start it;
  \<open>inodeLoadComplete\<close> and \<open>inodeCreated\<close> record a loaded inode; \<open>inodeLoadFailed\<close> cancels
  the waiters; \<open>lookupInode\<close> resolves an inode by number, at once when it is loaded.
\<close>

definition shouldLoadChild :: "InodeNumber \<Rightarrow> mount \<Rightarrow> bool \<times> mount" where
  "shouldLoadChild n st =
     (if n \<in> set (loading st) then (False, st) else (True, st\<lparr>loading := loading st @ [n]\<rparr>))"

definition inodeLoadComplete :: "InodeNumber \<Rightarrow> LoadedInode \<Rightarrow> mount \<Rightarrow> mount" where
  "inodeLoadComplete n obj st =
     st\<lparr>loaded := (loaded st)(n \<mapsto> obj), loading := removeAll n (loading st)\<rparr>"

definition inodeLoadFailed :: "InodeNumber \<Rightarrow> mount \<Rightarrow> mount" where
  "inodeLoadFailed n st = st\<lparr>loading := removeAll n (loading st)\<rparr>"

definition inodeCreated :: "InodeNumber \<Rightarrow> LoadedInode \<Rightarrow> mount \<Rightarrow> mount" where
  "inodeCreated n obj st = st\<lparr>loaded := (loaded st)(n \<mapsto> obj)\<rparr>"

definition lookupInode :: "mount \<Rightarrow> InodeNumber \<Rightarrow> InodeNumber future" where
  "lookupInode st n = (if inodeKindOf st n \<noteq> None then Ready n else Pending n)"

definition startLoadingInode ::
  "Entry \<Rightarrow> PathComponent \<Rightarrow> InodeNumber \<Rightarrow> mount \<Rightarrow> exn + LoadedInode" where
  "startLoadingInode entry nm number st =
     (if \<not> isDirectory entry
      then Inr \<lparr>li_name = nm, li_unlinked = False, li_kind = FileInode (mode entry) (hash entry)\<rparr>
      else
        (case hash entry of
           Some h \<Rightarrow>
             (case objectStore st h of
                Some tree \<Rightarrow>
                  Inr \<lparr>li_name = nm, li_unlinked = False,
                       li_kind = TreeInodeObj (buildDirFromTree (Some tree) (lastCheckoutTime st))\<rparr>
              | None \<Rightarrow> Inl (OtherException ''getTree failed''))
         | None \<Rightarrow>
             (case loadOverlayDir st number of
                None \<Rightarrow> Inl (EdenBug ''missing overlay'')
              | Some overlayDir \<Rightarrow>
                  Inr \<lparr>li_name = nm, li_unlinked = False, li_kind = TreeInodeObj overlayDir\<rparr>)))"

text \<open>
  \<open>getOrLoadChild\<close>.  A load that this call starts is taken to its end: the child is
  recorded in the entry and in the inode map, or the load fails and so does the future.
\<close>

definition getOrLoadChild :: "PathComponent \<Rightarrow> nat \<Rightarrow> mount \<Rightarrow> InodeNumber future \<times> mount" where
  "getOrLoadChild nm i st =
     (case pm_find (entries (contents (chain st ! i))) nm of
        None \<Rightarrow>
          if nm = kDotEdenName \<and> nodeId (chain st ! i) \<noteq> kRootNodeId
          then (lookupInode st (dotEdenInodeNumber st), st)
          else (Failed (InodeError ENOENT), st)
      | Some entry \<Rightarrow>
          (case inode entry of
             Some p \<Rightarrow> (Ready p, st)
           | None \<Rightarrow>
               let (childNumber, entry1, st1) =
                     (case inodeNumber entry of
                        Some n \<Rightarrow> (n, entry, st)
                      | None \<Rightarrow>
                          let (n, sta) = allocateInodeNumber st;
                              e1 = entry\<lparr>inodeNumber := Some n\<rparr>
                          in (n, e1,
                              setEntries i (pm_update nm e1 (entries (contents (chain sta ! i)))) sta));
                   (startLoad, st2) = shouldLoadChild childNumber st1
               in if startLoad
                  then
                    (case startLoadingInode entry1 nm childNumber st2 of
                       Inr childInode \<Rightarrow>
                         (Ready childNumber,
                          inodeLoadComplete childNumber childInode
                            (setEntries i
                               (pm_update nm (entry1\<lparr>inode := Some childNumber\<rparr>)
                                  (entries (contents (chain st2 ! i)))) st2))
                     | Inl ex \<Rightarrow> (Failed ex, inodeLoadFailed childNumber st2))
                  else (Pending childNumber, st2)))"

section \<open>Removing and creating entries\<close>

text \<open>
  Modelled from the spec: \<open>getPath\<close> (InodeBase) is absent once the inode has been unlinked,
  and is otherwise the names from the root down; \<open>markUnlinked\<close> (InodeBase) flags the
  child as unlinked; the wrong-type errors are \<open>IsDir\<close> for an unlink and \<open>NotDir\<close> for
  an rmdir.
\<close>

definition getPath :: "nat \<Rightarrow> mount \<Rightarrow> PathComponent list option" where
  "getPath i st =
     (if list_ex location_unlinked (drop i (chain st)) then None
      else Some (rev (map location_name (butlast (drop i (chain st))))))"

definition markUnlinked :: "InodeNumber \<Rightarrow> mount \<Rightarrow> mount" where
  "markUnlinked c st =
     (case chainIndex st c of
        Some k \<Rightarrow> setUnlinked k st
      | None \<Rightarrow>
          (case loaded st c of
             Some obj \<Rightarrow> st\<lparr>loaded := (loaded st)(c \<mapsto> obj\<lparr>li_unlinked := True\<rparr>)\<rparr>
           | None \<Rightarrow> st))"

definition WRONG_TYPE_ERRNO :: "bool \<Rightarrow> int" where
  "WRONG_TYPE_ERRNO wantTree = (if wantTree then ENOTDIR else EISDIR)"

text \<open>
  \<open>asSubclassPtrOrNull\<close>: the cast of an inode pointer to a tree pointer (\<open>wantTree\<close>) or to a
  file pointer succeeds when the object has that type.
\<close>

definition asSubclassPtrOrNull :: "bool \<Rightarrow> mount \<Rightarrow> InodeNumber \<Rightarrow> bool" where
  "asSubclassPtrOrNull wantTree st p =
     (case inodeKindOf st p of
        Some (TreeInodeObj _) \<Rightarrow> wantTree
      | Some (FileInode _ _) \<Rightarrow> \<not> wantTree
      | None \<Rightarrow> False)"

definition checkPreRemove :: "bool \<Rightarrow> mount \<Rightarrow> InodeNumber \<Rightarrow> int" where
  "checkPreRemove wantTree st child =
     (if wantTree
      then (case inodeKindOf st child of
              Some (TreeInodeObj childContents) \<Rightarrow>
                if entries childContents \<noteq> [] then ENOTEMPTY else 0
            | _ \<Rightarrow> 0)
      else 0)"

definition tryRemoveChild ::
  "bool \<Rightarrow> PathComponent \<Rightarrow> InodeNumber option \<Rightarrow> bool \<Rightarrow> timespec \<Rightarrow> nat \<Rightarrow> mount
     \<Rightarrow> (exn + int) \<times> mount" where
  "tryRemoveChild wantTree nm child flushKernelCache now i st =
     (case materialize True i st of
        (Some ex, st1) \<Rightarrow> (Inl ex, st1)
      | (None, st1) \<Rightarrow>
          if nodeId (chain st1 ! i) = dotEdenInodeNumber st1 then (Inr EPERM, st1)
          else
            (case pm_find (entries (contents (chain st1 ! i))) nm of
               None \<Rightarrow> (Inr ENOENT, st1)
             | Some ent \<Rightarrow>
                 (case inode ent of
                    None \<Rightarrow> (Inr EBADF, st1)
                  | Some entInode \<Rightarrow>
                      (case (case child of
                               Some c \<Rightarrow> if entInode \<noteq> c then Inl EBADF else Inr c
                             | None \<Rightarrow>
                                 if asSubclassPtrOrNull wantTree st1 entInode then Inr entInode
                                 else Inl (WRONG_TYPE_ERRNO wantTree)) of
                         Inl err \<Rightarrow> (Inr err, st1)
                       | Inr c \<Rightarrow>
                           let checkError = checkPreRemove wantTree st1 c
                           in if checkError \<noteq> 0 then (Inr checkError, st1)
                              else
                                let st2 = markUnlinked c st1;
                                    st3 = setEntries i
                                            (pm_erase nm (entries (contents (chain st2 ! i)))) st2;
                                    st4 = setContents i
                                            ((contents (chain st3 ! i))
                                               \<lparr>timeStamps := (timeStamps (contents (chain st3 ! i)))
                                                  \<lparr>mtime := now, ctime := now\<rparr>\<rparr>) st3;
                                    st5 = saveOverlayDir (nodeId (chain st4 ! i))
                                            (contents (chain st4 ! i)) st4;
                                    st6 = (if flushKernelCache then invalidateFuseCache i nm st5
                                           else st5)
                                in (Inr 0, st6)))))"

definition kMaxRemoveRetries :: nat where
  "kMaxRemoveRetries = 3"

text \<open>
  \<open>removeImpl\<close>.  Other threads can run between the lookup of the child and the removal
  attempt: \<open>env n\<close> is what they do to the mount before attempt \<open>n\<close>.  The result comes
  with the number of times the child was loaded again.
\<close>

function removeImpl ::
  "bool \<Rightarrow> PathComponent \<Rightarrow> InodeNumber \<Rightarrow> nat \<Rightarrow> (nat \<Rightarrow> mount \<Rightarrow> mount) \<Rightarrow> timespec \<Rightarrow> nat
     \<Rightarrow> mount \<Rightarrow> unit future \<times> nat \<times> mount" where
  "removeImpl wantTree nm childBasePtr attemptNum env now i st0 =
     (let st = env attemptNum st0 in
      if \<not> asSubclassPtrOrNull wantTree st childBasePtr
      then (Failed (InodeError (WRONG_TYPE_ERRNO wantTree)), 0, st)
      else
        let checkResult = checkPreRemove wantTree st childBasePtr
        in if checkResult \<noteq> 0 then (Failed (InodeError checkResult), 0, st)
           else
             (case getPath i st of
                None \<Rightarrow> (Failed (InodeError ENOENT), 0, st)
              | Some myPath \<Rightarrow>
                  (case tryRemoveChild wantTree nm None (\<not> isFuseRequest st) now i st of
                     (Inl ex, st1) \<Rightarrow> (Failed ex, 0, st1)
                   | (Inr errnoValue, st1) \<Rightarrow>
                       if errnoValue = 0
                       then (Ready (), 0, st1\<lparr>journal := journal st1 @ [REMOVED (myPath @ [nm])]\<rparr>)
                       else if errnoValue \<noteq> EBADF then (Failed (InodeError errnoValue), 0, st1)
                       else if attemptNum > kMaxRemoveRetries then (Failed (InodeError EIO), 0, st1)
                       else
                         (case getOrLoadChild nm i st1 of
                            (Ready loadedChild, st2) \<Rightarrow>
                              (case removeImpl wantTree nm loadedChild (attemptNum + 1) env now i st2 of
                                 (r, reloads, st3) \<Rightarrow> (r, Suc reloads, st3))
                          | (Failed ex, st2) \<Rightarrow> (Failed ex, 1, st2)
                          | (Pending n, st2) \<Rightarrow> (Pending n, 1, st2)))))"
  by pat_completeness auto
termination
  by (relation "measure (\<lambda>(_, _, _, attemptNum, _). Suc kMaxRemoveRetries - attemptNum)")
    (auto simp: kMaxRemoveRetries_def)

definition unlink ::
  "PathComponent \<Rightarrow> (nat \<Rightarrow> mount \<Rightarrow> mount) \<Rightarrow> timespec \<Rightarrow> nat \<Rightarrow> mount
     \<Rightarrow> unit future \<times> nat \<times> mount" where
  "unlink nm env now i st =
     (case getOrLoadChild nm i st of
        (Ready child, st1) \<Rightarrow> removeImpl False nm child 1 env now i st1
      | (Failed ex, st1) \<Rightarrow> (Failed ex, 0, st1)
      | (Pending n, st1) \<Rightarrow> (Pending n, 0, st1))"

definition rmdir ::
  "PathComponent \<Rightarrow> (nat \<Rightarrow> mount \<Rightarrow> mount) \<Rightarrow> timespec \<Rightarrow> nat \<Rightarrow> mount
     \<Rightarrow> unit future \<times> nat \<times> mount" where
  "rmdir nm env now i st =
     (case getOrLoadChild nm i st of
        (Ready child, st1) \<Rightarrow> removeImpl True nm child 1 env now i st1
      | (Failed ex, st1) \<Rightarrow> (Failed ex, 0, st1)
      | (Pending n, st1) \<Rightarrow> (Pending n, 0, st1))"

definition create ::
  "PathComponent \<Rightarrow> mode_t \<Rightarrow> timespec \<Rightarrow> nat \<Rightarrow> mount \<Rightarrow> InodeNumber future \<times> mount" where
  "create nm mode0 now i st =
     (case materialize False i st of
        (Some ex, st1) \<Rightarrow> (Failed ex, st1)
      | (None, st1) \<Rightarrow>
          (case getPath i st1 of
             None \<Rightarrow> (Failed (InodeError ENOENT), st1)
           | Some myPath \<Rightarrow>
               let (childNumber, st2) = allocateInodeNumber st1;
                   st3 = createOverlayFile childNumber now st2;
                   mode1 = S_IFREG OR (0xFFF AND mode0);
                   present = (pm_find (entries (contents (chain st3 ! i))) nm \<noteq> None);
                   st4 = setEntries i
                           (pm_emplace nm (EntryFromNumber mode1 childNumber)
                              (entries (contents (chain st3 ! i)))) st3
               in if present
                  then (Failed (EdenBug ''create() on path component that already exists''), st4)
                  else
                    let st5 = setEntries i
                                (pm_update nm ((EntryFromNumber mode1 childNumber)\<lparr>inode := Some childNumber\<rparr>)
                                   (entries (contents (chain st4 ! i)))) st4;
                        st6 = inodeCreated childNumber
                                \<lparr>li_name = nm, li_unlinked = False,
                                 li_kind = FileInode mode1 None\<rparr> st5;
                        st7 = setContents i
                                ((contents (chain st6 ! i))
                                   \<lparr>timeStamps := (timeStamps (contents (chain st6 ! i)))
                                      \<lparr>ctime := now, mtime := now\<rparr>\<rparr>) st6;
                        st8 = saveOverlayDir (nodeId (chain st7 ! i)) (contents (chain st7 ! i)) st7;
                        st9 = invalidateFuseCacheIfRequired i nm st8
                    in (Ready childNumber,
                        st9\<lparr>journal := journal st9 @ [CREATED (myPath @ [nm])]\<rparr>)))"


section \<open>Checkout\<close>

datatype ConflictType =
    ERROR | MODIFIED_REMOVED | UNTRACKED_ADDED | REMOVED_MODIFIED | MISSING_REMOVED
  | MODIFIED_MODIFIED | DIRECTORY_NOT_EMPTY

text \<open>
  Modelled from the spec: the checkout context (CheckoutContext.h) carries the mode of the
  checkout (dry run, force) and collects the conflicts and the errors, each with the
  directory and the entry name it is about.
\<close>

record CheckoutContext =
  isDryRun :: bool
  forceUpdate :: bool
  conflicts :: "(ConflictType \<times> InodeNumber \<times> PathComponent) list"
  errors :: "(InodeNumber \<times> PathComponent \<times> exn) list"

definition addConflict ::
  "ConflictType \<Rightarrow> InodeNumber \<Rightarrow> PathComponent \<Rightarrow> CheckoutContext \<Rightarrow> CheckoutContext" where
  "addConflict ty dir nm ctx = ctx\<lparr>conflicts := conflicts ctx @ [(ty, dir, nm)]\<rparr>"

text \<open>
  A checkout action processes one entry, on the loaded inode or on the future of a load.
  Modelled from the spec: its entry name is that of the old source-control entry, or of the
  new one when there is no old one.
\<close>

datatype ActionTarget = LoadedInodePtr InodeNumber | InodeFuture InodeNumber

record CheckoutAction =
  ca_oldScmEntry :: "TreeEntry option"
  ca_newScmEntry :: "TreeEntry option"
  ca_inode :: ActionTarget

definition scmEntryName :: "TreeEntry option \<Rightarrow> TreeEntry option \<Rightarrow> PathComponent" where
  "scmEntryName oldScmEntry newScmEntry =
     (case oldScmEntry of
        Some old \<Rightarrow> te_name old
      | None \<Rightarrow> (case newScmEntry of Some new \<Rightarrow> te_name new | None \<Rightarrow> []))"

definition getEntryName :: "CheckoutAction \<Rightarrow> PathComponent" where
  "getEntryName a = scmEntryName (ca_oldScmEntry a) (ca_newScmEntry a)"

record IncompleteInodeLoad =
  pl_name :: PathComponent
  pl_number :: InodeNumber
  pl_future :: "exn + LoadedInode"

definition canShortCircuitCheckout ::
  "CheckoutContext \<Rightarrow> Hash \<Rightarrow> Tree option \<Rightarrow> Tree option \<Rightarrow> bool" where
  "canShortCircuitCheckout ctx treeHash0 fromTree toTree =
     (if isDryRun ctx
      then (case fromTree of
              Some from \<Rightarrow> treeHash0 = tree_hash from
            | None \<Rightarrow> (case toTree of None \<Rightarrow> True | Some to \<Rightarrow> treeHash0 = tree_hash to))
      else
        (case toTree of
           None \<Rightarrow> False
         | Some to \<Rightarrow>
             if treeHash0 \<noteq> tree_hash to then False
             else (case fromTree of None \<Rightarrow> True | Some from \<Rightarrow> treeHash0 = tree_hash from)))"

definition loadChildLocked ::
  "PathComponent \<Rightarrow> Entry \<Rightarrow> nat \<Rightarrow> IncompleteInodeLoad list \<Rightarrow> mount
     \<Rightarrow> InodeNumber \<times> IncompleteInodeLoad list \<times> mount" where
  "loadChildLocked nm entry i pendingLoads st =
     (let (childNumber, entry1, st1) =
            (case inodeNumber entry of
               Some n \<Rightarrow> (n, entry, st)
             | None \<Rightarrow>
                 let (n, sta) = allocateInodeNumber st;
                     e1 = entry\<lparr>inodeNumber := Some n\<rparr>
                 in (n, e1, setEntries i (pm_update nm e1 (entries (contents (chain sta ! i)))) sta));
          (startLoad, st2) = shouldLoadChild childNumber st1
      in if startLoad
         then (childNumber,
               pendingLoads @
                 [\<lparr>pl_name = nm, pl_number = childNumber,
                   pl_future = startLoadingInode entry1 nm childNumber st2\<rparr>],
               st2)
         else (childNumber, pendingLoads, st2))"

text \<open>
  \<open>processCheckoutEntry\<close>.  At most one of the two source-control entries is null; the
  walk below never passes two nulls.  An entry without an inode number is not
  materialized, so it has a hash.
\<close>

definition processCheckoutEntry ::
  "CheckoutContext \<Rightarrow> TreeEntry option \<Rightarrow> TreeEntry option \<Rightarrow> nat \<Rightarrow> IncompleteInodeLoad list
     \<Rightarrow> mount \<Rightarrow> CheckoutAction option \<times> CheckoutContext \<times> IncompleteInodeLoad list \<times> mount" where
  "processCheckoutEntry ctx oldScmEntry newScmEntry i pendingLoads st =
     (if \<not> forceUpdate ctx \<and>
         (case (oldScmEntry, newScmEntry) of
            (Some old, Some new) \<Rightarrow> te_type old = te_type new \<and> te_hash old = te_hash new
          | _ \<Rightarrow> False)
      then (None, ctx, pendingLoads, st)
      else
        let nm = scmEntryName oldScmEntry newScmEntry;
            this = nodeId (chain st ! i)
        in
          (case pm_find (entries (contents (chain st ! i))) nm of
             None \<Rightarrow>
               (case oldScmEntry of
                  None \<Rightarrow>
                    (case newScmEntry of
                       Some new \<Rightarrow>
                         if \<not> isDryRun ctx
                         then (None, ctx, pendingLoads,
                               invalidateFuseCache i (te_name new)
                                 (setEntries i
                                    (pm_emplace (te_name new)
                                       (EntryFromHash (modeFromTreeEntryType (te_type new)) (te_hash new))
                                       (entries (contents (chain st ! i)))) st))
                         else (None, ctx, pendingLoads, st)
                     | None \<Rightarrow> (None, ctx, pendingLoads, st))
                | Some old \<Rightarrow>
                    (case newScmEntry of
                       None \<Rightarrow>
                         (None, addConflict MISSING_REMOVED this (te_name old) ctx, pendingLoads, st)
                     | Some new \<Rightarrow>
                         (None, addConflict REMOVED_MODIFIED this (te_name old) ctx, pendingLoads,
                          if forceUpdate ctx
                          then invalidateFuseCache i (te_name new)
                                 (setEntries i
                                    (pm_emplace (te_name new)
                                       (EntryFromHash (modeFromTreeEntryType (te_type new)) (te_hash new))
                                       (entries (contents (chain st ! i)))) st)
                          else st)))
           | Some entry \<Rightarrow>
               (case inode entry of
                  Some childPtr \<Rightarrow>
                    (Some \<lparr>ca_oldScmEntry = oldScmEntry, ca_newScmEntry = newScmEntry,
                           ca_inode = LoadedInodePtr childPtr\<rparr>, ctx, pendingLoads, st)
                | None \<Rightarrow>
                    if hasInodeNumber entry
                    then
                      (case loadChildLocked nm entry i pendingLoads st of
                         (inodeFuture, pendingLoads1, st1) \<Rightarrow>
                           (Some \<lparr>ca_oldScmEntry = oldScmEntry, ca_newScmEntry = newScmEntry,
                                  ca_inode = InodeFuture inodeFuture\<rparr>, ctx, pendingLoads1, st1))
                    else
                      let conflictType =
                            (case oldScmEntry of
                               None \<Rightarrow> UNTRACKED_ADDED
                             | Some old \<Rightarrow>
                                 if hash entry \<noteq> Some (te_hash old) then MODIFIED_MODIFIED else ERROR)
                      in
                        if conflictType \<noteq> ERROR \<and> isDirectory entry
                        then
                          (case loadChildLocked nm entry i pendingLoads st of
                             (inodeFuture, pendingLoads1, st1) \<Rightarrow>
                               (Some \<lparr>ca_oldScmEntry = oldScmEntry, ca_newScmEntry = newScmEntry,
                                      ca_inode = InodeFuture inodeFuture\<rparr>, ctx, pendingLoads1, st1))
                        else
                          let ctx1 = (if conflictType \<noteq> ERROR then addConflict conflictType this nm ctx
                                      else ctx)
                          in
                            if conflictType \<noteq> ERROR \<and> \<not> forceUpdate ctx
                            then (None, ctx1, pendingLoads, st)
                            else if isDryRun ctx then (None, ctx1, pendingLoads, st)
                            else
                              (case newScmEntry of
                                 None \<Rightarrow>
                                   (None, ctx1, pendingLoads,
                                    setEntries i (pm_erase nm (entries (contents (chain st ! i)))) st)
                               | Some new \<Rightarrow>
                                   (None, ctx1, pendingLoads,
                                    setEntries i
                                      (pm_update nm
                                         (EntryFromHash (modeFromTreeEntryType (te_type new)) (te_hash new))
                                         (entries (contents (chain st ! i)))) st)))))"

type_synonym walk_state =
  "CheckoutAction list \<times> CheckoutContext \<times> IncompleteInodeLoad list \<times> mount"

definition checkoutStep ::
  "TreeEntry option \<Rightarrow> TreeEntry option \<Rightarrow> nat \<Rightarrow> walk_state \<Rightarrow> walk_state" where
  "checkoutStep oldScmEntry newScmEntry i w =
     (case w of
        (actions, ctx, pendingLoads, st) \<Rightarrow>
          (case processCheckoutEntry ctx oldScmEntry newScmEntry i pendingLoads st of
             (action, ctx1, pendingLoads1, st1) \<Rightarrow>
               ((case action of Some a \<Rightarrow> actions @ [a] | None \<Rightarrow> actions),
                ctx1, pendingLoads1, st1)))"

text \<open>The merge walk over the sorted entries of the two trees.\<close>

fun checkoutWalk :: "TreeEntry list \<Rightarrow> TreeEntry list \<Rightarrow> nat \<Rightarrow> walk_state \<Rightarrow> walk_state" where
  "checkoutWalk [] [] i w = w"
| "checkoutWalk [] (new # newEntries) i w =
     checkoutWalk [] newEntries i (checkoutStep None (Some new) i w)"
| "checkoutWalk (old # oldEntries) [] i w =
     checkoutWalk oldEntries [] i (checkoutStep (Some old) None i w)"
| "checkoutWalk (old # oldEntries) (new # newEntries) i w =
     (if te_name old < te_name new
      then checkoutWalk oldEntries (new # newEntries) i (checkoutStep (Some old) None i w)
      else if te_name old > te_name new
      then checkoutWalk (old # oldEntries) newEntries i (checkoutStep None (Some new) i w)
      else checkoutWalk oldEntries newEntries i (checkoutStep (Some old) (Some new) i w))"

definition treeEntriesOf :: "Tree option \<Rightarrow> TreeEntry list" where
  "treeEntriesOf tree = (case tree of Some t \<Rightarrow> tree_entries t | None \<Rightarrow> [])"

definition computeCheckoutActions ::
  "CheckoutContext \<Rightarrow> Tree option \<Rightarrow> Tree option \<Rightarrow> nat \<Rightarrow> mount \<Rightarrow> walk_state" where
  "computeCheckoutActions ctx fromTree toTree i st =
     (if (case treeHash (contents (chain st ! i)) of
            Some h \<Rightarrow> canShortCircuitCheckout ctx h fromTree toTree
          | None \<Rightarrow> False)
      then ([], ctx, [], st)
      else checkoutWalk (treeEntriesOf fromTree) (treeEntriesOf toTree) i ([], ctx, [], st))"

subsection \<open>After the children have been processed\<close>

fun dematerializeLoop :: "(PathComponent \<times> Entry) list \<Rightarrow> TreeEntry list \<Rightarrow> bool" where
  "dematerializeLoop inodeEntries [] = True"
| "dematerializeLoop [] (scmEntry # scmEntries) = False"
| "dematerializeLoop (inodeEntry # inodeEntries) (scmEntry # scmEntries) =
     (if isMaterializedE (snd inodeEntry) then False
      else if hash (snd inodeEntry) \<noteq> Some (te_hash scmEntry) then False
      else dematerializeLoop inodeEntries scmEntries)"

text \<open>
  The loop runs over both lists in step; it is entered only when they have the same
  length, so the second equation of \<open>dematerializeLoop\<close> is never reached.
\<close>

definition tryToDematerialize :: "Tree option \<Rightarrow> Dir \<Rightarrow> Hash option" where
  "tryToDematerialize tree contents0 =
     (case tree of
        None \<Rightarrow> None
      | Some t \<Rightarrow>
          if length (tree_entries t) \<noteq> length (entries contents0) then None
          else if dematerializeLoop (entries contents0) (tree_entries t) then Some (tree_hash t)
          else None)"

definition checkoutTryRemoveEmptyDir :: "timespec \<Rightarrow> nat \<Rightarrow> mount \<Rightarrow> (exn + bool) \<times> mount" where
  "checkoutTryRemoveEmptyDir now i st =
     (if \<not> Suc i < length (chain st) then (Inr False, st)
      else
        (case tryRemoveChild True (location_name (chain st ! i)) (Some (nodeId (chain st ! i)))
                True now (Suc i) st of
           (Inl ex, st1) \<Rightarrow> (Inl ex, st1)
         | (Inr errnoValue, st1) \<Rightarrow> (Inr (errnoValue = 0), st1)))"

definition saveOverlayPostCheckout ::
  "CheckoutContext \<Rightarrow> Tree option \<Rightarrow> timespec \<Rightarrow> nat \<Rightarrow> mount \<Rightarrow> exn option \<times> mount" where
  "saveOverlayPostCheckout ctx tree now i st =
     (if isDryRun ctx then (None, st)
      else
        let deleteSelf = (tree = None \<and> entries (contents (chain st ! i)) = []);
            oldHash = treeHash (contents (chain st ! i));
            st1 = setContents i
                    ((contents (chain st ! i))
                       \<lparr>treeHash := tryToDematerialize tree (contents (chain st ! i))\<rparr>) st;
            isMaterialized0 = isMaterialized (contents (chain st1 ! i));
            stateChanged = (oldHash \<noteq> treeHash (contents (chain st1 ! i)));
            st2 = (if isMaterialized (contents (chain st1 ! i))
                   then saveOverlayDir (nodeId (chain st1 ! i)) (contents (chain st1 ! i)) st1
                   else st1)
        in
          (case (if deleteSelf then checkoutTryRemoveEmptyDir now i st2 else (Inr False, st2)) of
             (Inl ex, st3) \<Rightarrow> (Some ex, st3)
           | (Inr True, st3) \<Rightarrow> (None, st3)
           | (Inr False, st3) \<Rightarrow>
               if stateChanged
               then
                 (case (if Suc i < length (chain st3) \<and> \<not> location_unlinked (chain st3 ! i)
                        then (if isMaterialized0
                              then childMaterialized (Suc i) (location_name (chain st3 ! i))
                                     (nodeId (chain st3 ! i)) st3
                              else (case tree of
                                      Some t \<Rightarrow>
                                        childDematerialized (Suc i) (location_name (chain st3 ! i))
                                          (tree_hash t) st3
                                    | None \<Rightarrow> (None, st3)))
                        else (None, st3)) of
                    (Some ex, st4) \<Rightarrow> (Some ex, st4)
                  | (None, st4) \<Rightarrow>
                      (None,
                       if \<not> isMaterialized0 then removeOverlayData (nodeId (chain st4 ! i)) st4
                       else st4))
               else (None, st3)))"

section \<open>The dispatch adapter\<close>

record fuse_attr =
  fa_ino :: "64 word"
  fa_mode :: "32 word"
  fa_nlink :: "32 word"

record fuse_attr_out =
  fao_attr_valid :: "64 word"
  fao_attr_valid_nsec :: "32 word"
  fao_attr :: fuse_attr

record fuse_entry_out =
  nodeid :: "64 word"
  generation :: "64 word"
  entry_valid :: "64 word"
  attr_valid :: "64 word"
  entry_valid_nsec :: "32 word"
  attr_valid_nsec :: "32 word"
  attr :: fuse_attr

text \<open>\<open>fuse_entry_out entry = {}\<close>: every field is zero.\<close>

definition zero_fuse_entry_out :: fuse_entry_out where
  "zero_fuse_entry_out =
     \<lparr>nodeid = 0, generation = 0, entry_valid = 0, attr_valid = 0, entry_valid_nsec = 0,
      attr_valid_nsec = 0, attr = \<lparr>fa_ino = 0, fa_mode = 0, fa_nlink = 0\<rparr>\<rparr>"

text \<open>\<open>computeEntryParam\<close>, on the number of the inode and the result of \<open>attr.asFuseAttr()\<close>.\<close>

definition computeEntryParam :: "InodeNumber \<Rightarrow> fuse_attr_out \<Rightarrow> fuse_entry_out" where
  "computeEntryParam number fuse_attr0 =
     \<lparr>nodeid = number, generation = 1,
      entry_valid = fao_attr_valid fuse_attr0,
      attr_valid = fao_attr_valid fuse_attr0,
      entry_valid_nsec = fao_attr_valid_nsec fuse_attr0,
      attr_valid_nsec = fao_attr_valid_nsec fuse_attr0,
      attr = fao_attr fuse_attr0\<rparr>"

text \<open>
  The error handler of \<open>lookup\<close>: it is entered for a \<open>std::system_error\<close> only, and any
  other exception passes it by.
\<close>

definition lookupOnError :: "exn \<Rightarrow> fuse_entry_out future" where
  "lookupOnError err =
     (case err of
        SystemError category val \<Rightarrow>
          if category = system_category \<and> val = ENOENT
          then Ready (zero_fuse_entry_out\<lparr>attr_valid := - 1, entry_valid := - 1\<rparr>)
          else Failed err
      | _ \<Rightarrow> Failed err)"

text \<open>
  \<open>EdenDispatcher::lookup\<close>.  \<open>parentTree\<close> is what the inode map's \<open>lookupTreeInode\<close>
  resolved the parent number to, and \<open>getattr\<close> is the \<open>getattr\<close> method of the child.
\<close>

definition lookup ::
  "(mount \<Rightarrow> InodeNumber \<Rightarrow> exn + fuse_attr_out) \<Rightarrow> exn + nat \<Rightarrow> PathComponent \<Rightarrow> mount
     \<Rightarrow> fuse_entry_out future \<times> mount" where
  "lookup getattr parentTree namepiece st =
     (case (case parentTree of
              Inl ex \<Rightarrow> (Failed ex, st)
            | Inr tree \<Rightarrow>
                (case getOrLoadChild namepiece tree st of
                   (Ready inode0, st1) \<Rightarrow>
                     (case getattr st1 inode0 of
                        Inr attr0 \<Rightarrow>
                          (Ready (computeEntryParam inode0 attr0),
                           st1\<lparr>fuseRefcount := (fuseRefcount st1)(inode0 := Suc (fuseRefcount st1 inode0))\<rparr>)
                      | Inl ex \<Rightarrow> (Failed ex, st1))
                 | (Failed ex, st1) \<Rightarrow> (Failed ex, st1)
                 | (Pending n, st1) \<Rightarrow> (Pending n, st1))) of
        (Failed err, st2) \<Rightarrow> (lookupOnError err, st2)
      | (r, st2) \<Rightarrow> (r, st2))"

section \<open>Notions used in the statements\<close>

text \<open>
  The locations of the inodes of the chain, and the part of the mount that is neither
  the chain, nor the overlay, nor the history.
\<close>

definition locations :: "mount \<Rightarrow> (InodeNumber \<times> PathComponent \<times> bool) list" where
  "locations st = map (\<lambda>t. (nodeId t, location_name t, location_unlinked t)) (chain st)"

definition outsideChain :: "mount \<Rightarrow> mount" where
  "outsideChain st = st\<lparr>chain := [], overlay := Map.empty, history := []\<rparr>"

text \<open>
  What a part of the merge walk may do when it leaves the name \<open>nm\<close> alone: the entry of
  that name in directory \<open>i\<close> stays as it is, and the actions, conflicts, pending loads
  and cache invalidations that are added are about other names; no error is added.
\<close>

definition frame :: "PathComponent \<Rightarrow> nat \<Rightarrow> walk_state \<Rightarrow> walk_state \<Rightarrow> bool" where
  "frame nm i w w' =
     (case w of (actions, ctx, pl, st) \<Rightarrow>
      case w' of (actions', ctx', pl', st') \<Rightarrow>
        length (chain st') = length (chain st)
        \<and> pm_find (entries (contents (chain st' ! i))) nm = pm_find (entries (contents (chain st ! i))) nm
        \<and> (\<exists>as. actions' = actions @ as \<and> (\<forall>a\<in>set as. getEntryName a \<noteq> nm))
        \<and> (\<exists>cs. conflicts ctx' = conflicts ctx @ cs \<and> (\<forall>c\<in>set cs. snd (snd c) \<noteq> nm))
        \<and> errors ctx' = errors ctx
        \<and> (\<exists>ps. pl' = pl @ ps \<and> (\<forall>p\<in>set ps. pl_name p \<noteq> nm))
        \<and> (\<exists>vs. fuseInvalidations st' = fuseInvalidations st @ vs \<and> (\<forall>v\<in>set vs. snd v \<noteq> nm)))"

text \<open>
  The three writes by which \<open>childMaterialized\<close> marks the entry \<open>cn\<close> of directory \<open>i\<close>
  materialized with the number \<open>cid\<close>, marks the directory materialized and persists it.
\<close>

definition markChildMaterialized ::
  "nat \<Rightarrow> PathComponent \<Rightarrow> InodeNumber \<Rightarrow> Entry \<Rightarrow> mount \<Rightarrow> mount" where
  "markChildMaterialized i cn cid e st =
     (let st1 = setEntries i
                  (pm_update cn (setMaterializedE cid e) (entries (contents (chain st ! i)))) st;
          st2 = setContents i (setMaterialized (contents (chain st1 ! i))) st1
      in saveOverlayDir (nodeId (chain st2 ! i)) (contents (chain st2 ! i)) st2)"

definition markChildDematerialized ::
  "nat \<Rightarrow> PathComponent \<Rightarrow> Hash \<Rightarrow> Entry \<Rightarrow> mount \<Rightarrow> mount" where
  "markChildDematerialized i cn h e st =
     (let st1 = setEntries i
                  (pm_update cn (setDematerializedE h e) (entries (contents (chain st ! i)))) st;
          st2 = setContents i (setMaterialized (contents (chain st1 ! i))) st1
      in saveOverlayDir (nodeId (chain st2 ! i)) (contents (chain st2 ! i)) st2)"

text \<open>
  Materialization monotonicity along the chain: a directory is materialized when it lists
  a materialized entry, or when a directory below it that is still linked to it is
  materialized or lists a materialized entry.
\<close>

definition hasMaterializedEntry :: "Dir \<Rightarrow> bool" where
  "hasMaterializedEntry d \<longleftrightarrow> (\<exists>p\<in>set (entries d). isMaterializedE (snd p))"

definition linkedBetween :: "TreeInode list \<Rightarrow> nat \<Rightarrow> nat \<Rightarrow> bool" where
  "linkedBetween ch k j \<longleftrightarrow> (\<forall>m. k \<le> m \<and> m < j \<longrightarrow> \<not> location_unlinked (ch ! m))"

definition monotoneApart :: "nat \<Rightarrow> TreeInode list \<Rightarrow> bool" where
  "monotoneApart i ch \<longleftrightarrow>
     (\<forall>k j. k \<le> j \<and> j < length ch \<and> (j < i \<or> i \<le> k) \<and> linkedBetween ch k j
            \<and> (isMaterialized (contents (ch ! k)) \<or> hasMaterializedEntry (contents (ch ! k)))
        \<longrightarrow> isMaterialized (contents (ch ! j)))"

definition monotone :: "TreeInode list \<Rightarrow> bool" where
  "monotone ch \<longleftrightarrow> monotoneApart 0 ch"

text \<open>Every linked inode of the chain has an entry, under its name, in its parent.\<close>

definition parentsListChildren :: "TreeInode list \<Rightarrow> bool" where
  "parentsListChildren ch \<longleftrightarrow>
     (\<forall>k. Suc k < length ch \<and> \<not> location_unlinked (ch ! k)
        \<longrightarrow> pm_find (entries (contents (ch ! Suc k))) (location_name (ch ! k)) \<noteq> None)"

text \<open>
  Overlay coverage.  A listing is covered when each of its materialized entries has an
  inode number that has data in the overlay.  A state of the chain and the overlay is
  consistent when the contents of every inode of the chain and every listing in the
  overlay are covered: no parent, in memory or on disk, records a child as materialized
  while that child has no overlay data.
\<close>

definition covered :: "(InodeNumber \<Rightarrow> OverlayData option) \<Rightarrow> Dir \<Rightarrow> bool" where
  "covered ov d \<longleftrightarrow>
     (\<forall>p\<in>set (entries d). isMaterializedE (snd p)
        \<longrightarrow> (\<exists>n. inodeNumber (snd p) = Some n \<and> ov n \<noteq> None))"

definition consistent :: "TreeInode list \<times> (InodeNumber \<Rightarrow> OverlayData option) \<Rightarrow> bool" where
  "consistent s \<longleftrightarrow>
     (\<forall>t\<in>set (fst s). covered (snd s) (contents t))
     \<and> (\<forall>n d. snd s n = Some (OverlayDir d) \<longrightarrow> covered (snd s) d)"

text \<open>
  From \<open>st\<close> to \<open>st'\<close> every state of the chain and the overlay that was passed through,
  the last one included, is consistent.
\<close>

definition stepsConsistent :: "mount \<Rightarrow> mount \<Rightarrow> bool" where
  "stepsConsistent st st' \<longleftrightarrow>
     (\<exists>hs. history st' = history st @ hs \<and> (\<forall>s\<in>set hs. consistent s)
          \<and> (chain st', overlay st') = last ((chain st, overlay st) # hs))"

text \<open>
  Inode numbers are unique.  \<open>noRef X d\<close>: the listing \<open>d\<close> has no materialized entry with
  the number \<open>X\<close>.  \<open>onlyParentRefers i st\<close>: the number of the inode at position \<open>i\<close> is not
  the number of an inode above it, and it is recorded as materialized at most by the
  parent, under the name of the inode, and in the overlay at most by the listing of the
  parent and only while the parent records it so in memory; by nobody when the inode is
  unlinked or has no parent.
\<close>

definition noRef :: "InodeNumber \<Rightarrow> Dir \<Rightarrow> bool" where
  "noRef X d \<longleftrightarrow>
     (\<forall>p\<in>set (entries d). isMaterializedE (snd p) \<longrightarrow> inodeNumber (snd p) \<noteq> Some X)"

definition onlyParentRefers :: "nat \<Rightarrow> mount \<Rightarrow> bool" where
  "onlyParentRefers i st \<longleftrightarrow>
     (let ch = chain st; X = nodeId (ch ! i); nm = location_name (ch ! i)
      in (\<forall>k<length ch. k \<noteq> Suc i \<longrightarrow> noRef X (contents (ch ! k)))
         \<and> (\<forall>k<length ch. i < k \<longrightarrow> nodeId (ch ! k) \<noteq> X)
         \<and> (if Suc i < length ch \<and> \<not> location_unlinked (ch ! i)
            then (\<forall>p\<in>set (entries (contents (ch ! Suc i))).
                    isMaterializedE (snd p) \<and> inodeNumber (snd p) = Some X
                      \<longrightarrow> fst p = nm \<and> pm_find (entries (contents (ch ! Suc i))) nm = Some (snd p))
                 \<and> (\<forall>n d. overlay st n = Some (OverlayDir d) \<and> \<not> noRef X d
                      \<longrightarrow> n = nodeId (ch ! Suc i)
                          \<and> (\<exists>e. pm_find (entries (contents (ch ! Suc i))) nm = Some e
                                 \<and> isMaterializedE e))
            else (Suc i < length ch \<longrightarrow> noRef X (contents (ch ! Suc i)))
                 \<and> (\<forall>n d. overlay st n = Some (OverlayDir d) \<longrightarrow> noRef X d)))"

text \<open>
  The writes by which \<open>tryRemoveChild\<close> removes the entry \<open>nm\<close> of directory \<open>i\<close> once
  every check has passed: the child \<open>c\<close> is told it is unlinked, the entry is erased, the
  timestamps are set, the listing is persisted and the kernel cache flushed if asked for.
\<close>

definition removeEntrySteps ::
  "InodeNumber \<Rightarrow> PathComponent \<Rightarrow> bool \<Rightarrow> timespec \<Rightarrow> nat \<Rightarrow> mount \<Rightarrow> mount" where
  "removeEntrySteps c nm flushKernelCache now i st1 =
     (let st2 = markUnlinked c st1;
          st3 = setEntries i (pm_erase nm (entries (contents (chain st2 ! i)))) st2;
          st4 = setContents i
                  ((contents (chain st3 ! i))
                     \<lparr>timeStamps := (timeStamps (contents (chain st3 ! i)))
                        \<lparr>mtime := now, ctime := now\<rparr>\<rparr>) st3;
          st5 = saveOverlayDir (nodeId (chain st4 ! i)) (contents (chain st4 ! i)) st4
      in if flushKernelCache then invalidateFuseCache i nm st5 else st5)"

text \<open>
  \<open>unreferenced X st\<close>: no listing in memory and no listing in the overlay has a
  materialized entry with the number \<open>X\<close>.
\<close>

definition unreferenced :: "InodeNumber \<Rightarrow> mount \<Rightarrow> bool" where
  "unreferenced X st \<longleftrightarrow>
     (\<forall>k<length (chain st). noRef X (contents (chain st ! k)))
     \<and> (\<forall>n d. overlay st n = Some (OverlayDir d) \<longrightarrow> noRef X d)"


section \<open>Example states\<close>

text \<open>
  A mount of a tree with two files \<open>a\<close> and \<open>b\<close> and a directory \<open>d\<close> holding a file \<open>c\<close>.
  The directory \<open>d\<close> is loaded as inode 5; the root is the last inode of the chain.
\<close>

definition exampleTree :: Tree where
  "exampleTree =
     \<lparr>tree_hash = 100,
      tree_entries =
        [\<lparr>te_name = ''a'', te_type = REGULAR_FILE, te_hash = 1\<rparr>,
         \<lparr>te_name = ''b'', te_type = REGULAR_FILE, te_hash = 2\<rparr>,
         \<lparr>te_name = ''d'', te_type = TREE, te_hash = 3\<rparr>]\<rparr>"

definition exampleSubTree :: Tree where
  "exampleSubTree =
     \<lparr>tree_hash = 3,
      tree_entries = [\<lparr>te_name = ''c'', te_type = REGULAR_FILE, te_hash = 4\<rparr>]\<rparr>"

definition exampleStat :: stat where
  "exampleStat = \<lparr>st_mode = 0, st_ino = 0, st_nlink = 0, st_atim = 0, st_ctim = 0, st_mtim = 0\<rparr>"

definition exampleMount :: mount where
  "exampleMount =
     \<lparr>chain =
        [\<lparr>nodeId = 5, location_name = ''d'', location_unlinked = False,
          contents = buildDirFromTree (Some exampleSubTree) 0\<rparr>,
         \<lparr>nodeId = kRootNodeId, location_name = [], location_unlinked = False,
          contents =
            \<lparr>entries =
               [(''a'', EntryFromHash (modeFromTreeEntryType REGULAR_FILE) 1),
                (''b'', EntryFromHash (modeFromTreeEntryType REGULAR_FILE) 2),
                (''d'', (EntryFromHash (modeFromTreeEntryType TREE) 3)
                          \<lparr>inodeNumber := Some 5, inode := Some 5\<rparr>)],
             treeHash = Some 100, timeStamps = setAll 0\<rparr>\<rparr>],
      loaded = Map.empty, loading = [], nextInodeNumber = 10,
      overlay = Map.empty,
      objectStore = [100 \<mapsto> exampleTree, 3 \<mapsto> exampleSubTree],
      journal = [], fuseInvalidations = [], fuseRefcount = (\<lambda>_. 0),
      hasFuseChannel = True, isFuseRequest = True,
      dotEdenInodeNumber = 2, lastCheckoutTime = 0, history = []\<rparr>"

definition normalCtx :: CheckoutContext where
  "normalCtx = \<lparr>isDryRun = False, forceUpdate = False, conflicts = [], errors = []\<rparr>"

definition dryRunCtx :: CheckoutContext where
  "dryRunCtx = \<lparr>isDryRun = True, forceUpdate = False, conflicts = [], errors = []\<rparr>"

definition forceCtx :: CheckoutContext where
  "forceCtx = \<lparr>isDryRun = False, forceUpdate = True, conflicts = [], errors = []\<rparr>"

text \<open>
  A materialized root whose only file, tracked as \<open>y\<close>, has been renamed to \<open>x\<close>, and the
  tree that lists it as \<open>y\<close>.
\<close>

definition renamedDir :: Dir where
  "renamedDir =
     \<lparr>entries = [(''x'', (EntryFromHash (modeFromTreeEntryType REGULAR_FILE) 1)
                            \<lparr>inodeNumber := Some 7\<rparr>)],
      treeHash = None, timeStamps = setAll 0\<rparr>"

definition renamedMount :: mount where
  "renamedMount =
     exampleMount
       \<lparr>chain := [\<lparr>nodeId = kRootNodeId, location_name = [], location_unlinked = False,
                   contents = renamedDir\<rparr>],
        overlay := [kRootNodeId \<mapsto> OverlayDir renamedDir]\<rparr>"

definition targetTree :: Tree where
  "targetTree =
     \<lparr>tree_hash = 200,
      tree_entries = [\<lparr>te_name = ''y'', te_type = REGULAR_FILE, te_hash = 1\<rparr>]\<rparr>"

text \<open>
  The example mount with an untracked file \<open>u\<close> in the root, and a second tree in which
  \<open>a\<close> is modified and \<open>b\<close> is removed.
\<close>

definition untrackedEntry :: Entry where
  "untrackedEntry = (EntryFromNumber (S_IFREG OR 0x1A4) 8)"

definition untrackedMount :: mount where
  "untrackedMount =
     exampleMount
       \<lparr>chain :=
          [\<lparr>nodeId = 5, location_name = ''d'', location_unlinked = False,
            contents = buildDirFromTree (Some exampleSubTree) 0\<rparr>,
           \<lparr>nodeId = kRootNodeId, location_name = [], location_unlinked = False,
            contents =
              \<lparr>entries =
                 [(''a'', EntryFromHash (modeFromTreeEntryType REGULAR_FILE) 1),
                  (''b'', EntryFromHash (modeFromTreeEntryType REGULAR_FILE) 2),
                  (''d'', (EntryFromHash (modeFromTreeEntryType TREE) 3)
                            \<lparr>inodeNumber := Some 5, inode := Some 5\<rparr>),
                  (''u'', untrackedEntry)],
               treeHash = None, timeStamps = setAll 0\<rparr>\<rparr>]\<rparr>"

definition exampleTree2 :: Tree where
  "exampleTree2 =
     \<lparr>tree_hash = 101,
      tree_entries =
        [\<lparr>te_name = ''a'', te_type = REGULAR_FILE, te_hash = 11\<rparr>,
         \<lparr>te_name = ''d'', te_type = TREE, te_hash = 3\<rparr>]\<rparr>"

text \<open>The reserved directory, materialized and empty, under a materialized root.\<close>

definition dotEdenMount :: mount where
  "dotEdenMount =
     exampleMount
       \<lparr>chain :=
          [\<lparr>nodeId = 2, location_name = ''.eden'', location_unlinked = False,
            contents = \<lparr>entries = [], treeHash = None, timeStamps = setAll 0\<rparr>\<rparr>,
           \<lparr>nodeId = kRootNodeId, location_name = [], location_unlinked = False,
            contents =
              \<lparr>entries =
                 [(''.eden'', (EntryFromNumber (S_IFDIR OR 0x1ED) 2)\<lparr>inode := Some 2\<rparr>)],
               treeHash = None, timeStamps = setAll 0\<rparr>\<rparr>]\<rparr>"

text \<open>
  The root with the file \<open>x\<close> whose inode object 7 is still alive, while the entry of that
  name is not loaded.
\<close>

definition staleMount :: mount where
  "staleMount =
     renamedMount
       \<lparr>loaded := [7 \<mapsto> \<lparr>li_name = ''x'', li_unlinked = False,
                          li_kind = FileInode (modeFromTreeEntryType REGULAR_FILE) (Some 1)\<rparr>]\<rparr>"

text \<open>Three materialized directories, one inside the other, with a file \<open>f\<close> in the lowest.\<close>

definition deepMount :: mount where
  "deepMount =
     exampleMount
       \<lparr>chain :=
          [\<lparr>nodeId = 6, location_name = ''d2'', location_unlinked = False,
            contents =
              \<lparr>entries = [(''f'', (EntryFromHash (modeFromTreeEntryType REGULAR_FILE) 4)
                                     \<lparr>inodeNumber := Some 9, inode := Some 9\<rparr>)],
               treeHash = None, timeStamps = setAll 0\<rparr>\<rparr>,
           \<lparr>nodeId = 5, location_name = ''d1'', location_unlinked = False,
            contents =
              \<lparr>entries = [(''d2'', (EntryFromNumber (S_IFDIR OR 0x1ED) 6)\<lparr>inode := Some 6\<rparr>)],
               treeHash = None, timeStamps = setAll 0\<rparr>\<rparr>,
           \<lparr>nodeId = kRootNodeId, location_name = [], location_unlinked = False,
            contents =
              \<lparr>entries = [(''d1'', (EntryFromNumber (S_IFDIR OR 0x1ED) 5)\<lparr>inode := Some 5\<rparr>)],
               treeHash = None, timeStamps = setAll 0\<rparr>\<rparr>],
        overlay :=
          [6 \<mapsto> OverlayDir
                 \<lparr>entries = [(''f'', (EntryFromHash (modeFromTreeEntryType REGULAR_FILE) 4)
                                        \<lparr>inodeNumber := Some 9\<rparr>)],
                  treeHash = None, timeStamps = setAll 0\<rparr>,
           5 \<mapsto> OverlayDir
                 \<lparr>entries = [(''d2'', EntryFromNumber (S_IFDIR OR 0x1ED) 6)],
                  treeHash = None, timeStamps = setAll 0\<rparr>,
           kRootNodeId \<mapsto> OverlayDir
                 \<lparr>entries = [(''d1'', EntryFromNumber (S_IFDIR OR 0x1ED) 5)],
                  treeHash = None, timeStamps = setAll 0\<rparr>]\<rparr>"

text \<open>
  The example mount once the file \<open>c\<close> of \<open>d\<close> has its data in the overlay as inode 9, and
  a tree that lists the same file under another tree hash.
\<close>

definition overlayMount :: mount where
  "overlayMount = exampleMount\<lparr>overlay := [9 \<mapsto> OverlayFile 0]\<rparr>"

definition rehashedSubTree :: Tree where
  "rehashedSubTree =
     \<lparr>tree_hash = 30,
      tree_entries = [\<lparr>te_name = ''c'', te_type = REGULAR_FILE, te_hash = 4\<rparr>]\<rparr>"

text \<open>
  The root with the file \<open>x\<close> loaded as inode 7, and the same root after \<open>x\<close> has been
  replaced by another file, loaded as inode 8, while the object of inode 7 is still alive.
\<close>

definition loadedMount :: mount where
  "loadedMount =
     staleMount
       \<lparr>chain := [\<lparr>nodeId = kRootNodeId, location_name = [], location_unlinked = False,
                   contents =
                     \<lparr>entries = [(''x'', (EntryFromHash (modeFromTreeEntryType REGULAR_FILE) 1)
                                           \<lparr>inodeNumber := Some 7, inode := Some 7\<rparr>)],
                      treeHash = None, timeStamps = setAll 0\<rparr>\<rparr>]\<rparr>"

definition replacedMount :: mount where
  "replacedMount =
     staleMount
       \<lparr>chain := [\<lparr>nodeId = kRootNodeId, location_name = [], location_unlinked = False,
                   contents =
                     \<lparr>entries = [(''x'', (EntryFromNumber (S_IFREG OR 0x1A4) 8)
                                           \<lparr>inode := Some 8\<rparr>)],
                      treeHash = None, timeStamps = setAll 0\<rparr>\<rparr>],
        loaded := [7 \<mapsto> \<lparr>li_name = ''x'', li_unlinked = True,
                          li_kind = FileInode (modeFromTreeEntryType REGULAR_FILE) (Some 1)\<rparr>,
                   8 \<mapsto> \<lparr>li_name = ''x'', li_unlinked = False,
                          li_kind = FileInode (S_IFREG OR 0x1A4) None\<rparr>]\<rparr>"

text \<open>
  The example mount after the first two writes of \<open>materialize\<close> on \<open>d\<close>: the directory is
  marked materialized and persisted, and the root has not been told yet.
\<close>

definition midMount :: mount where
  "midMount =
     saveOverlayDir 5 (setMaterialized (contents (chain exampleMount ! 0)))
       (setContents 0 (setMaterialized (contents (chain exampleMount ! 0))) exampleMount)"

text \<open>
  The root with \<open>x\<close> when inode 7 is a directory that is not empty; the root after it has
  been unlinked; and the example mount when \<open>d\<close> goes by a name that the root does not
  list, with the file \<open>c\<close> loaded as inode 9.
\<close>

definition treeChildMount :: mount where
  "treeChildMount =
     staleMount
       \<lparr>loaded := [7 \<mapsto> \<lparr>li_name = ''x'', li_unlinked = False,
                          li_kind = TreeInodeObj renamedDir\<rparr>]\<rparr>"

definition unlinkedMount :: mount where
  "unlinkedMount =
     staleMount\<lparr>chain := map (\<lambda>t. t\<lparr>location_unlinked := True\<rparr>) (chain staleMount)\<rparr>"

definition orphanMount :: mount where
  "orphanMount =
     exampleMount
       \<lparr>chain := [(chain exampleMount ! 0)\<lparr>location_name := ''zz''\<rparr>, chain exampleMount ! 1],
        loaded := [9 \<mapsto> \<lparr>li_name = ''c'', li_unlinked = False,
                          li_kind = FileInode (modeFromTreeEntryType REGULAR_FILE) (Some 4)\<rparr>]\<rparr>"


section \<open>Proofs\<close>

lemmas errno_defs =
  EPERM_def ENOENT_def EIO_def EBADF_def EEXIST_def ENOTDIR_def EISDIR_def ENOTEMPTY_def

subsection \<open>The entry table\<close>

lemma pm_emplace_keys: "fst ` set (pm_emplace nm e es) = insert nm (fst ` set es)"
  by (auto simp: pm_emplace_def set_insort_key map_of_eq_None_iff)

lemma pm_emplace_length:
  "nm \<notin> fst ` set es \<Longrightarrow> length (pm_emplace nm e es) = Suc (length es)"
  by (simp add: pm_emplace_def map_of_eq_None_iff)

lemma foldl_emplace_length:
  "distinct (map te_name ts) \<Longrightarrow> te_name ` set ts \<inter> fst ` set es = {} \<Longrightarrow>
   length (foldl (\<lambda>es treeEntry. pm_emplace (te_name treeEntry) (f treeEntry) es) es ts)
     = length es + length ts"
proof (induction ts arbitrary: es)
  case Nil
  then show ?case by simp
next
  case (Cons t ts)
  have fresh: "te_name t \<notin> fst ` set es" using Cons.prems(2) by auto
  have "te_name ` set ts \<inter> fst ` set (pm_emplace (te_name t) (f t) es) = {}"
    using Cons.prems by (auto simp: pm_emplace_keys)
  with Cons.IH [of "pm_emplace (te_name t) (f t) es"] Cons.prems(1) fresh
  show ?case by (simp add: pm_emplace_length)
qed

lemma map_of_insort_key_other:
  "k' \<noteq> k \<Longrightarrow> map_of (insort_key fst (k, v) es) k' = map_of es k'"
  by (induction es) auto

lemma pm_find_emplace_other:
  "nm' \<noteq> nm \<Longrightarrow> pm_find (pm_emplace nm e es) nm' = pm_find es nm'"
  by (simp add: pm_find_def pm_emplace_def map_of_insort_key_other)

lemma pm_find_erase_other:
  "nm' \<noteq> nm \<Longrightarrow> pm_find (pm_erase nm es) nm' = pm_find es nm'"
  unfolding pm_find_def pm_erase_def by (induction es) auto

lemma pm_find_update_other:
  "nm' \<noteq> nm \<Longrightarrow> pm_find (pm_update nm e es) nm' = pm_find es nm'"
  unfolding pm_find_def pm_update_def by (induction es) auto


subsection \<open>Writes to the chain and what they leave alone\<close>

declare childMaterialized.simps [simp del]
declare removeImpl.simps [simp del]

lemma map_list_update_same:
  "f x = f (xs ! j) \<Longrightarrow> map f (xs[j := x]) = map f xs"
  by (metis list_update_beyond list_update_id map_update not_le_imp_less)

lemma nth_list_update_same:
  "f x = f (xs ! j) \<Longrightarrow> f (xs[j := x] ! k) = f (xs ! k)"
  by (metis list_update_beyond nth_list_update_eq nth_list_update_neq not_le_imp_less)

lemma setContents_frame [simp]:
  "locations (setContents j d st) = locations st"
  "outsideChain (setContents j d st) = outsideChain st"
  "length (chain (setContents j d st)) = length (chain st)"
  "k \<noteq> j \<Longrightarrow> chain (setContents j d st) ! k = chain st ! k"
  "j < length (chain st) \<Longrightarrow> contents (chain (setContents j d st) ! j) = d"
  "nodeId (chain (setContents j d st) ! k) = nodeId (chain st ! k)"
  "location_name (chain (setContents j d st) ! k) = location_name (chain st ! k)"
  "location_unlinked (chain (setContents j d st) ! k) = location_unlinked (chain st ! k)"
  "overlay (setContents j d st) = overlay st"
  "fuseInvalidations (setContents j d st) = fuseInvalidations st"
  "loading (setContents j d st) = loading st"
  by (auto simp: setContents_def snapshot_def locations_def outsideChain_def map_list_update_same
      nth_list_update_same [where f = nodeId] nth_list_update_same [where f = location_name]
      nth_list_update_same [where f = location_unlinked])

lemma setEntries_frame [simp]:
  "locations (setEntries j es st) = locations st"
  "outsideChain (setEntries j es st) = outsideChain st"
  "length (chain (setEntries j es st)) = length (chain st)"
  "k \<noteq> j \<Longrightarrow> chain (setEntries j es st) ! k = chain st ! k"
  "j < length (chain st) \<Longrightarrow>
     contents (chain (setEntries j es st) ! j) = (contents (chain st ! j))\<lparr>entries := es\<rparr>"
  "nodeId (chain (setEntries j es st) ! k) = nodeId (chain st ! k)"
  "location_name (chain (setEntries j es st) ! k) = location_name (chain st ! k)"
  "location_unlinked (chain (setEntries j es st) ! k) = location_unlinked (chain st ! k)"
  "overlay (setEntries j es st) = overlay st"
  "fuseInvalidations (setEntries j es st) = fuseInvalidations st"
  "loading (setEntries j es st) = loading st"
  by (simp_all add: setEntries_def)

lemma saveOverlayDir_frame [simp]:
  "chain (saveOverlayDir n d st) = chain st"
  "locations (saveOverlayDir n d st) = locations st"
  "outsideChain (saveOverlayDir n d st) = outsideChain st"
  "overlay (saveOverlayDir n d st) = (overlay st)(n \<mapsto> OverlayDir (serializeDir d))"
  by (simp_all add: saveOverlayDir_def snapshot_def locations_def outsideChain_def)

lemma childMaterialized_frame:
  "childMaterialized j cn cid st = (r, st') \<Longrightarrow>
     locations st' = locations st \<and> outsideChain st' = outsideChain st
     \<and> length (chain st') = length (chain st)
     \<and> (\<forall>k<j. chain st' ! k = chain st ! k)"
proof (induction j cn cid st arbitrary: r st' rule: childMaterialized.induct)
  case (1 i childName childNodeId st)
  show ?case
  proof (cases "pm_find (entries (contents (chain st ! i))) childName")
    case None
    with 1(2) show ?thesis by (simp add: childMaterialized.simps)
  next
    case (Some childEntry)
    show ?thesis
    proof (cases "isMaterialized (contents (chain st ! i)) \<and> isMaterializedE childEntry")
      case True
      with Some 1(2) show ?thesis by (simp add: childMaterialized.simps)
    next
      case False
      define st1 where "st1 = setEntries i
                        (pm_update childName (setMaterializedE childNodeId childEntry)
                           (entries (contents (chain st ! i)))) st"
      define st2 where "st2 = setContents i (setMaterialized (contents (chain st1 ! i))) st1"
      define st3 where "st3 = saveOverlayDir (nodeId (chain st2 ! i)) (contents (chain st2 ! i)) st2"
      have fr: "locations st3 = locations st" "outsideChain st3 = outsideChain st"
        "length (chain st3) = length (chain st)" "\<forall>k<i. chain st3 ! k = chain st ! k"
        by (simp_all add: st3_def st2_def st1_def)
      have unf: "childMaterialized i childName childNodeId st =
          (if Suc i < length (chain st3) \<and> \<not> location_unlinked (chain st3 ! i)
           then childMaterialized (Suc i) (location_name (chain st3 ! i)) (nodeId (chain st3 ! i)) st3
           else (None, st3))"
        unfolding st3_def st2_def st1_def
        by (subst childMaterialized.simps) (simp only: Some option.case False if_False Let_def)
      show ?thesis
      proof (cases "Suc i < length (chain st3) \<and> \<not> location_unlinked (chain st3 ! i)")
        case True
        with unf 1(2)
        have rec: "childMaterialized (Suc i) (location_name (chain st3 ! i))
                      (nodeId (chain st3 ! i)) st3 = (r, st')"
          by simp
        from 1(1) [OF Some False st1_def st2_def st3_def True rec] fr
        show ?thesis by auto
      next
        case f: False
        with unf 1(2) have "st' = st3" by simp
        with fr show ?thesis by simp
      qed
    qed
  qed
qed

lemma locations_maps:
  "map nodeId (chain st) = map fst (locations st)"
  "map location_name (chain st) = map (fst \<circ> snd) (locations st)"
  "map location_unlinked (chain st) = map (snd \<circ> snd) (locations st)"
  by (simp_all add: locations_def comp_def)

lemma locations_length:
  "locations st' = locations st \<Longrightarrow> length (chain st') = length (chain st)"
  by (drule arg_cong [where f = length]) (simp add: locations_def)

lemma locations_nth:
  assumes "locations st' = locations st" "k < length (chain st)"
  shows "nodeId (chain st' ! k) = nodeId (chain st ! k)"
    "location_name (chain st' ! k) = location_name (chain st ! k)"
    "location_unlinked (chain st' ! k) = location_unlinked (chain st ! k)"
proof -
  have l: "length (chain st') = length (chain st)"
    using assms(1) by (rule locations_length)
  have "locations st' ! k = locations st ! k" using assms by simp
  then show "nodeId (chain st' ! k) = nodeId (chain st ! k)"
    "location_name (chain st' ! k) = location_name (chain st ! k)"
    "location_unlinked (chain st' ! k) = location_unlinked (chain st ! k)"
    using assms(2) l by (simp_all add: locations_def)
qed

lemma getPath_locations:
  assumes "locations st' = locations st"
  shows "getPath i st' = getPath i st"
proof -
  have a: "list_ex location_unlinked (drop i (chain s)) \<longleftrightarrow> True \<in> set (drop i (map location_unlinked (chain s)))"
    for s by (auto simp: list_ex_iff drop_map)
  have b: "map location_name (butlast (drop i (chain s))) = butlast (drop i (map location_name (chain s)))"
    for s by (simp add: map_butlast drop_map)
  show ?thesis
    unfolding getPath_def a b locations_maps assms ..
qed

lemma chainIndex_locations:
  assumes "locations st' = locations st"
  shows "chainIndex st' n = chainIndex st n"
proof -
  have t: "length (takeWhile (\<lambda>t. nodeId t \<noteq> n) (chain s)) = length (takeWhile (\<lambda>x. x \<noteq> n) (map nodeId (chain s)))"
    for s by (simp add: takeWhile_map comp_def)
  show ?thesis
    unfolding chainIndex_def t locations_maps assms ..
qed

lemma outsideChain_fields:
  assumes "outsideChain st' = outsideChain st"
  shows "loaded st' = loaded st" "loading st' = loading st"
    "nextInodeNumber st' = nextInodeNumber st" "dotEdenInodeNumber st' = dotEdenInodeNumber st"
    "isFuseRequest st' = isFuseRequest st" "hasFuseChannel st' = hasFuseChannel st"
    "journal st' = journal st" "fuseInvalidations st' = fuseInvalidations st"
    "objectStore st' = objectStore st" "lastCheckoutTime st' = lastCheckoutTime st"
    "fuseRefcount st' = fuseRefcount st"
proof -
  have "loaded (outsideChain st') = loaded (outsideChain st)"
    "loading (outsideChain st') = loading (outsideChain st)"
    "nextInodeNumber (outsideChain st') = nextInodeNumber (outsideChain st)"
    "dotEdenInodeNumber (outsideChain st') = dotEdenInodeNumber (outsideChain st)"
    "isFuseRequest (outsideChain st') = isFuseRequest (outsideChain st)"
    "hasFuseChannel (outsideChain st') = hasFuseChannel (outsideChain st)"
    "journal (outsideChain st') = journal (outsideChain st)"
    "fuseInvalidations (outsideChain st') = fuseInvalidations (outsideChain st)"
    "objectStore (outsideChain st') = objectStore (outsideChain st)"
    "lastCheckoutTime (outsideChain st') = lastCheckoutTime (outsideChain st)"
    "fuseRefcount (outsideChain st') = fuseRefcount (outsideChain st)"
    using assms by simp_all
  then show "loaded st' = loaded st" "loading st' = loading st"
    "nextInodeNumber st' = nextInodeNumber st" "dotEdenInodeNumber st' = dotEdenInodeNumber st"
    "isFuseRequest st' = isFuseRequest st" "hasFuseChannel st' = hasFuseChannel st"
    "journal st' = journal st" "fuseInvalidations st' = fuseInvalidations st"
    "objectStore st' = objectStore st" "lastCheckoutTime st' = lastCheckoutTime st"
    "fuseRefcount st' = fuseRefcount st"
    by (simp_all add: outsideChain_def)
qed

lemma materialize_frame:
  assumes "materialize h i st = (r, st')"
  shows "locations st' = locations st \<and> outsideChain st' = outsideChain st
     \<and> length (chain st') = length (chain st)
     \<and> (\<forall>k<i. chain st' ! k = chain st ! k)
     \<and> entries (contents (chain st' ! i)) = entries (contents (chain st ! i))
     \<and> (i < length (chain st) \<longrightarrow> isMaterialized (contents (chain st' ! i)))"
proof (cases "isMaterialized (contents (chain st ! i))")
  case True
  then have "materialize h i st = (None, st)" by (simp add: materialize_def)
  with assms True show ?thesis by simp
next
  case False
  define st1 where "st1 = setContents i (setMaterialized (contents (chain st ! i))) st"
  define st2 where "st2 = saveOverlayDir (nodeId (chain st1 ! i)) (contents (chain st1 ! i)) st1"
  have fr: "locations st2 = locations st" "outsideChain st2 = outsideChain st"
    "length (chain st2) = length (chain st)" "\<forall>k<i. chain st2 ! k = chain st ! k"
    by (simp_all add: st2_def st1_def)
  have "entries (contents (chain st1 ! i)) = entries (contents (chain st ! i))"
    unfolding st1_def setContents_def snapshot_def
    by (simp add: nth_list_update_same [where f = "\<lambda>t. entries (contents t)"] setMaterialized_def)
  moreover have "i < length (chain st) \<longrightarrow> isMaterialized (contents (chain st1 ! i))"
    by (simp add: st1_def setMaterialized_def isMaterialized_def)
  ultimately have c: "entries (contents (chain st2 ! i)) = entries (contents (chain st ! i))"
    "i < length (chain st) \<longrightarrow> isMaterialized (contents (chain st2 ! i))"
    by (simp_all add: st2_def)
  have unf: "materialize h i st =
      (if Suc i < length (chain st2) \<and> \<not> location_unlinked (chain st2 ! i)
       then childMaterialized (Suc i) (location_name (chain st2 ! i)) (nodeId (chain st2 ! i)) st2
       else (None, st2))"
    unfolding st2_def st1_def materialize_def
    by (simp only: False if_False Let_def simp_thms)
  show ?thesis
  proof (cases "Suc i < length (chain st2) \<and> \<not> location_unlinked (chain st2 ! i)")
    case True
    with unf assms have "childMaterialized (Suc i) (location_name (chain st2 ! i))
        (nodeId (chain st2 ! i)) st2 = (r, st')" by simp
    from childMaterialized_frame [OF this] fr c show ?thesis by auto
  next
    case f: False
    with unf assms have "st' = st2" by simp
    with fr c show ?thesis by simp
  qed
qed


subsection \<open>getattr\<close>

text \<open>
  C8 (as amended).  \<open>getattr\<close> on a directory, whatever its contents, reports as
  \<open>st_nlink\<close> the number of entries of the directory plus two, for \<open>.\<close> and \<open>..\<close>; the
  count does not wrap around as long as it fits 64 bits.  In particular a directory freshly
  built from a source-control tree with pairwise different names has as many links as the
  tree has entries, files and directories alike, plus two.
\<close>

theorem getattr_nlink_counts_entries:
  "st_nlink (getAttrLocked initStatData ino d) = of_nat (length (entries d)) + 2
   \<and> (length (entries d) + 2 < 2 ^ 64 \<longrightarrow>
        unat (st_nlink (getAttrLocked initStatData ino d)) = length (entries d) + 2)
   \<and> (distinct (map te_name (tree_entries t)) \<longrightarrow>
        st_nlink (getAttrLocked initStatData ino (buildDirFromTree (Some t) lct))
          = of_nat (length (tree_entries t)) + 2)"
proof (intro conjI impI)
  show "st_nlink (getAttrLocked initStatData ino d) = of_nat (length (entries d)) + 2"
    by (simp add: getAttrLocked_def)
next
  assume b: "length (entries d) + 2 < 2 ^ 64"
  have "st_nlink (getAttrLocked initStatData ino d)
      = (of_nat (length (entries d) + 2) :: 64 word)"
    by (simp add: getAttrLocked_def)
  then show "unat (st_nlink (getAttrLocked initStatData ino d)) = length (entries d) + 2"
    using b by (simp only: unat_of_nat) simp
next
  assume "distinct (map te_name (tree_entries t))"
  with foldl_emplace_length [of "tree_entries t" "[]"]
  show "st_nlink (getAttrLocked initStatData ino (buildDirFromTree (Some t) lct))
          = of_nat (length (tree_entries t)) + 2"
    by (simp add: getAttrLocked_def buildDirFromTree_def)
qed

theorem getattr_nlink_counts_entries_witness:
  "length (entries (contents (chain untrackedMount ! 1))) + 2 < (2::nat) ^ 64
   \<and> distinct (map te_name (tree_entries exampleTree))
   \<and> st_nlink (getAttrLocked exampleStat kRootNodeId (contents (chain untrackedMount ! 1))) = 6
   \<and> unat (st_nlink (getAttrLocked exampleStat kRootNodeId (contents (chain untrackedMount ! 1))))
        = 6
   \<and> st_nlink (getAttrLocked exampleStat kRootNodeId (buildDirFromTree (Some exampleTree) 0)) = 5"
proof -
  have l: "length (entries (contents (chain untrackedMount ! 1))) = 4"
    by (simp add: untrackedMount_def)
  have d: "distinct (map te_name (tree_entries exampleTree))"
    by (simp add: exampleTree_def)
  from getattr_nlink_counts_entries [of exampleStat kRootNodeId
      "contents (chain untrackedMount ! 1)" exampleTree 0] d l
  show ?thesis by (simp add: exampleTree_def)
qed

text \<open>
  The root built from the tree with the files \<open>a\<close>, \<open>b\<close> and the directory \<open>d\<close> has three
  entries, so its link count is 5 and not 4.
\<close>

theorem getattr_nlink_root_counterexample:
  "map te_name (tree_entries exampleTree) = [''a'', ''b'', ''d'']
   \<and> st_nlink (getAttrLocked exampleStat kRootNodeId (buildDirFromTree (Some exampleTree) 0)) \<noteq> 4"
  by (simp add: getAttrLocked_def buildDirFromTree_def exampleTree_def pm_emplace_def
      EntryFromHash_def)

subsection \<open>Lookup of a missing name\<close>

text \<open>
  C6 (as amended).  \<open>getOrLoadChild\<close> on a name that has no entry in the directory fails
  with \<open>NotFound\<close> and changes nothing, with one exception: the reserved name, looked up in
  a directory other than the root, is handed to the inode map to resolve the reserved
  inode number.  At the root a missing reserved name fails like any other name.
\<close>

theorem getOrLoadChild_missing_entry:
  "pm_find (entries (contents (chain st ! i))) nm = None \<Longrightarrow>
   getOrLoadChild nm i st =
     (if nm = kDotEdenName \<and> nodeId (chain st ! i) \<noteq> kRootNodeId
      then (lookupInode st (dotEdenInodeNumber st), st)
      else (Failed (InodeError ENOENT), st))"
  by (simp add: getOrLoadChild_def)

theorem getOrLoadChild_missing_entry_witness:
  "pm_find (entries (contents (chain exampleMount ! 0))) ''nope'' = None
   \<and> getOrLoadChild ''nope'' 0 exampleMount = (Failed (InodeError ENOENT), exampleMount)"
proof -
  have a: "pm_find (entries (contents (chain exampleMount ! 0))) ''nope'' = None"
    by (simp add: exampleMount_def pm_find_def buildDirFromTree_def exampleSubTree_def
        pm_emplace_def)
  from getOrLoadChild_missing_entry [OF a] a show ?thesis
    by (simp add: kDotEdenName_def)
qed

text \<open>
  In the directory \<open>d\<close>, which is not the root and has no entry of the reserved name, the
  lookup of the reserved name does not fail with \<open>NotFound\<close>; at the root, without such an
  entry, it does.
\<close>

theorem getOrLoadChild_reserved_name_counterexample:
  "pm_find (entries (contents (chain exampleMount ! 0))) kDotEdenName = None
   \<and> nodeId (chain exampleMount ! 0) \<noteq> kRootNodeId
   \<and> fst (getOrLoadChild kDotEdenName 0 exampleMount) \<noteq> Failed (InodeError ENOENT)
   \<and> pm_find (entries (contents (chain exampleMount ! 1))) kDotEdenName = None
   \<and> nodeId (chain exampleMount ! 1) = kRootNodeId
   \<and> fst (getOrLoadChild kDotEdenName 1 exampleMount) = Failed (InodeError ENOENT)"
  by (simp add: getOrLoadChild_def exampleMount_def pm_find_def buildDirFromTree_def
      exampleSubTree_def pm_emplace_def kDotEdenName_def kRootNodeId_def lookupInode_def
      inodeKindOf_def chainIndex_def)

subsection \<open>Negative lookups in the dispatch adapter\<close>

text \<open>
  C7.  When a lookup fails with \<open>NotFound\<close> the adapter answers with a reply, not an error:
  every field zero, so inode number 0, but for the attribute and entry validity, which are
  the largest value.  Any other failure is passed on unchanged.  This holds for every
  failure that reaches the handler: of the resolution of the parent, of the lookup of the
  child, and of the \<open>getattr\<close> of the child.  A lookup that succeeds answers with the
  number and attributes of the child and counts one more kernel reference to it; a lookup
  that waits for a load changes nothing more.
\<close>

theorem lookup_not_found_is_negative_reply:
  "lookupOnError (InodeError ENOENT)
     = Ready (zero_fuse_entry_out\<lparr>attr_valid := 0xFFFFFFFFFFFFFFFF,
                                  entry_valid := 0xFFFFFFFFFFFFFFFF\<rparr>)
   \<and> nodeid (zero_fuse_entry_out\<lparr>attr_valid := 0xFFFFFFFFFFFFFFFF,
                                  entry_valid := 0xFFFFFFFFFFFFFFFF\<rparr>) = 0
   \<and> (err \<noteq> InodeError ENOENT \<longrightarrow> lookupOnError err = Failed err)
   \<and> lookup getattr (Inl err) nm st = (lookupOnError err, st)
   \<and> (getOrLoadChild nm i st = (Failed err, st1) \<longrightarrow>
        lookup getattr (Inr i) nm st = (lookupOnError err, st1))
   \<and> (getOrLoadChild nm i st = (Ready child, st1) \<and> getattr st1 child = Inl err \<longrightarrow>
        lookup getattr (Inr i) nm st = (lookupOnError err, st1))
   \<and> (getOrLoadChild nm i st = (Ready child, st1) \<and> getattr st1 child = Inr attr0 \<longrightarrow>
        lookup getattr (Inr i) nm st
          = (Ready (computeEntryParam child attr0),
             st1\<lparr>fuseRefcount := (fuseRefcount st1)(child := Suc (fuseRefcount st1 child))\<rparr>))
   \<and> (getOrLoadChild nm i st = (Pending n, st1) \<longrightarrow>
        lookup getattr (Inr i) nm st = (Pending n, st1))"
proof -
  have a: "lookupOnError (InodeError ENOENT)
     = Ready (zero_fuse_entry_out\<lparr>attr_valid := 0xFFFFFFFFFFFFFFFF,
                                  entry_valid := 0xFFFFFFFFFFFFFFFF\<rparr>)"
    by (simp add: lookupOnError_def InodeError_def)
  have a': "nodeid (zero_fuse_entry_out\<lparr>attr_valid := 0xFFFFFFFFFFFFFFFF,
                                  entry_valid := 0xFFFFFFFFFFFFFFFF\<rparr>) = 0"
    by (simp add: zero_fuse_entry_out_def)
  have b: "err \<noteq> InodeError ENOENT \<longrightarrow> lookupOnError err = Failed err"
    by (cases err) (auto simp: lookupOnError_def InodeError_def)
  have c: "lookup getattr (Inl err) nm st = (lookupOnError err, st)"
    by (simp add: lookup_def)
  have d: "getOrLoadChild nm i st = (Failed err, st1) \<longrightarrow>
        lookup getattr (Inr i) nm st = (lookupOnError err, st1)"
    by (simp add: lookup_def)
  have e: "getOrLoadChild nm i st = (Ready child, st1) \<and> getattr st1 child = Inl err \<longrightarrow>
        lookup getattr (Inr i) nm st = (lookupOnError err, st1)"
    by (simp add: lookup_def)
  have f: "getOrLoadChild nm i st = (Ready child, st1) \<and> getattr st1 child = Inr attr0 \<longrightarrow>
        lookup getattr (Inr i) nm st
          = (Ready (computeEntryParam child attr0),
             st1\<lparr>fuseRefcount := (fuseRefcount st1)(child := Suc (fuseRefcount st1 child))\<rparr>)"
    by (simp add: lookup_def)
  have g: "getOrLoadChild nm i st = (Pending n, st1) \<longrightarrow>
        lookup getattr (Inr i) nm st = (Pending n, st1)"
    by (simp add: lookup_def)
  from a a' b c d e f g show ?thesis by blast
qed

theorem lookup_not_found_is_negative_reply_witness:
  "InodeError EIO \<noteq> InodeError ENOENT
   \<and> lookupOnError (InodeError EIO) = Failed (InodeError EIO)
   \<and> getOrLoadChild ''nope'' 1 exampleMount = (Failed (InodeError ENOENT), exampleMount)
   \<and> lookup (\<lambda>_ _. Inl (OtherException [])) (Inr 1) ''nope'' exampleMount =
        (Ready (zero_fuse_entry_out\<lparr>attr_valid := 0xFFFFFFFFFFFFFFFF,
                                     entry_valid := 0xFFFFFFFFFFFFFFFF\<rparr>), exampleMount)
   \<and> getOrLoadChild ''d'' 1 exampleMount = (Ready 5, exampleMount)
   \<and> lookup (\<lambda>_ _. Inl (InodeError EIO)) (Inr 1) ''d'' exampleMount
        = (Failed (InodeError EIO), exampleMount)
   \<and> lookup (\<lambda>_ _. Inl (InodeError ENOENT)) (Inr 1) ''d'' exampleMount =
        (Ready (zero_fuse_entry_out\<lparr>attr_valid := 0xFFFFFFFFFFFFFFFF,
                                     entry_valid := 0xFFFFFFFFFFFFFFFF\<rparr>), exampleMount)
   \<and> fst (lookup (\<lambda>_ _. Inr \<lparr>fao_attr_valid = 1, fao_attr_valid_nsec = 0,
                              fao_attr = \<lparr>fa_ino = 5, fa_mode = 0, fa_nlink = 3\<rparr>\<rparr>)
             (Inr 1) ''d'' exampleMount)
        = Ready \<lparr>nodeid = 5, generation = 1, entry_valid = 1, attr_valid = 1,
                 entry_valid_nsec = 0, attr_valid_nsec = 0,
                 attr = \<lparr>fa_ino = 5, fa_mode = 0, fa_nlink = 3\<rparr>\<rparr>
   \<and> fst (getOrLoadChild ''a'' 1 (exampleMount\<lparr>loading := [10]\<rparr>)) = Pending 10
   \<and> fst (lookup (\<lambda>_ _. Inl (InodeError EIO)) (Inr 1) ''a'' (exampleMount\<lparr>loading := [10]\<rparr>))
        = Pending 10"
proof -
  have ne: "InodeError EIO \<noteq> InodeError ENOENT" by (simp add: InodeError_def errno_defs)
  have f: "getOrLoadChild ''nope'' 1 exampleMount = (Failed (InodeError ENOENT), exampleMount)"
    by (simp add: getOrLoadChild_def exampleMount_def pm_find_def kDotEdenName_def)
  have g: "getOrLoadChild ''d'' 1 exampleMount = (Ready 5, exampleMount)"
    by (simp add: getOrLoadChild_def exampleMount_def pm_find_def EntryFromHash_def)
  have p: "fst (getOrLoadChild ''a'' 1 (exampleMount\<lparr>loading := [10]\<rparr>)) = Pending 10"
    by (simp add: getOrLoadChild_def exampleMount_def pm_find_def EntryFromHash_def
        allocateInodeNumber_def shouldLoadChild_def setEntries_def setContents_def snapshot_def
        Let_def)
  then have p': "getOrLoadChild ''a'' 1 (exampleMount\<lparr>loading := [10]\<rparr>)
      = (Pending 10, snd (getOrLoadChild ''a'' 1 (exampleMount\<lparr>loading := [10]\<rparr>)))"
    by (metis prod.collapse)
  note t = lookup_not_found_is_negative_reply
  from t [where err = "InodeError EIO"] ne
  have 1: "lookupOnError (InodeError EIO) = Failed (InodeError EIO)" by blast
  from t [where err = "InodeError ENOENT" and nm = "''nope''" and i = 1 and st = exampleMount
      and ?st1.0 = exampleMount and getattr = "\<lambda>_ _. Inl (OtherException [])"] f
  have 2: "lookup (\<lambda>_ _. Inl (OtherException [])) (Inr 1) ''nope'' exampleMount =
        (Ready (zero_fuse_entry_out\<lparr>attr_valid := 0xFFFFFFFFFFFFFFFF,
                                     entry_valid := 0xFFFFFFFFFFFFFFFF\<rparr>), exampleMount)"
    by simp
  from t [where err = "InodeError EIO" and nm = "''d''" and i = 1 and st = exampleMount
      and ?st1.0 = exampleMount and getattr = "\<lambda>_ _. Inl (InodeError EIO)" and child = 5] g 1
  have 3: "lookup (\<lambda>_ _. Inl (InodeError EIO)) (Inr 1) ''d'' exampleMount
        = (Failed (InodeError EIO), exampleMount)"
    by simp
  from t [where err = "InodeError ENOENT" and nm = "''d''" and i = 1 and st = exampleMount
      and ?st1.0 = exampleMount and getattr = "\<lambda>_ _. Inl (InodeError ENOENT)" and child = 5] g
  have 4: "lookup (\<lambda>_ _. Inl (InodeError ENOENT)) (Inr 1) ''d'' exampleMount =
        (Ready (zero_fuse_entry_out\<lparr>attr_valid := 0xFFFFFFFFFFFFFFFF,
                                     entry_valid := 0xFFFFFFFFFFFFFFFF\<rparr>), exampleMount)"
    by simp
  from t [where nm = "''d''" and i = 1 and st = exampleMount and ?st1.0 = exampleMount
      and getattr = "\<lambda>_ _. Inr \<lparr>fao_attr_valid = 1, fao_attr_valid_nsec = 0,
                              fao_attr = \<lparr>fa_ino = 5, fa_mode = 0, fa_nlink = 3\<rparr>\<rparr>"
      and child = 5
      and ?attr0.0 = "\<lparr>fao_attr_valid = 1, fao_attr_valid_nsec = 0,
                              fao_attr = \<lparr>fa_ino = 5, fa_mode = 0, fa_nlink = 3\<rparr>\<rparr>"] g
  have 5: "fst (lookup (\<lambda>_ _. Inr \<lparr>fao_attr_valid = 1, fao_attr_valid_nsec = 0,
                              fao_attr = \<lparr>fa_ino = 5, fa_mode = 0, fa_nlink = 3\<rparr>\<rparr>)
             (Inr 1) ''d'' exampleMount)
        = Ready \<lparr>nodeid = 5, generation = 1, entry_valid = 1, attr_valid = 1,
                 entry_valid_nsec = 0, attr_valid_nsec = 0,
                 attr = \<lparr>fa_ino = 5, fa_mode = 0, fa_nlink = 3\<rparr>\<rparr>"
    by (simp add: computeEntryParam_def)
  from t [where nm = "''a''" and i = 1 and st = "exampleMount\<lparr>loading := [10]\<rparr>"
      and ?st1.0 = "snd (getOrLoadChild ''a'' 1 (exampleMount\<lparr>loading := [10]\<rparr>))"
      and getattr = "\<lambda>_ _. Inl (InodeError EIO)" and n = 10] p'
  have 6: "fst (lookup (\<lambda>_ _. Inl (InodeError EIO)) (Inr 1) ''a''
      (exampleMount\<lparr>loading := [10]\<rparr>)) = Pending 10"
    by simp
  from ne 1 f 2 g 3 4 5 p 6 show ?thesis by blast
qed

subsection \<open>Short-circuiting a checkout\<close>

text \<open>
  C4 (as amended).  For a tree inode that is not materialized, with tree hash \<open>h\<close>, the
  computation of the checkout actions returns at once, with no action, no conflict and
  nothing changed, under these rules, and runs the merge walk otherwise.  In a dry run:
  when \<open>fromTree\<close> is given, iff \<open>h\<close> is the hash of \<open>fromTree\<close>; when it is not,
  iff \<open>toTree\<close> is absent or has hash \<open>h\<close>.  In a normal run: iff \<open>toTree\<close> exists and
  has hash \<open>h\<close> and \<open>fromTree\<close> is either absent or has hash \<open>h\<close> as well.
\<close>

theorem checkout_short_circuit_rules:
  "treeHash (contents (chain st ! i)) = Some h \<Longrightarrow>
   (canShortCircuitCheckout ctx h fromTree toTree \<longleftrightarrow>
     (if isDryRun ctx
      then (case fromTree of
              Some from \<Rightarrow> h = tree_hash from
            | None \<Rightarrow> toTree = None \<or> map_option tree_hash toTree = Some h)
      else map_option tree_hash toTree = Some h \<and>
           (fromTree = None \<or> map_option tree_hash fromTree = Some h)))
   \<and> (canShortCircuitCheckout ctx h fromTree toTree \<longrightarrow>
        computeCheckoutActions ctx fromTree toTree i st = ([], ctx, [], st))
   \<and> (\<not> canShortCircuitCheckout ctx h fromTree toTree \<longrightarrow>
        computeCheckoutActions ctx fromTree toTree i st =
          checkoutWalk (treeEntriesOf fromTree) (treeEntriesOf toTree) i ([], ctx, [], st))"
  by (auto simp: canShortCircuitCheckout_def computeCheckoutActions_def split: option.splits)

theorem checkout_short_circuit_rules_witness:
  "treeHash (contents (chain exampleMount ! 1)) = Some 100
   \<and> canShortCircuitCheckout normalCtx 100 (Some exampleTree) (Some exampleTree)
   \<and> computeCheckoutActions normalCtx (Some exampleTree) (Some exampleTree) 1 exampleMount
       = ([], normalCtx, [], exampleMount)
   \<and> \<not> canShortCircuitCheckout normalCtx 100 (Some exampleSubTree) (Some exampleTree)"
proof -
  have h: "treeHash (contents (chain exampleMount ! 1)) = Some 100"
    by (simp add: exampleMount_def)
  from checkout_short_circuit_rules
         [OF h, of normalCtx "Some exampleTree" "Some exampleTree"]
       checkout_short_circuit_rules
         [OF h, of normalCtx "Some exampleSubTree" "Some exampleTree"] h
  show ?thesis by (simp add: normalCtx_def exampleTree_def exampleSubTree_def)
qed

text \<open>
  A normal checkout with no \<open>fromTree\<close>, of a root that already has the hash of \<open>toTree\<close>,
  returns at once although no \<open>fromTree\<close> hash equals the tree hash; the merge walk would
  have reported conflicts.
\<close>

theorem checkout_short_circuit_counterexample:
  "treeHash (contents (chain exampleMount ! 1)) = Some (tree_hash exampleTree)
   \<and> \<not> isDryRun normalCtx
   \<and> map_option tree_hash None \<noteq> Some (tree_hash exampleTree)
   \<and> computeCheckoutActions normalCtx None (Some exampleTree) 1 exampleMount
       = ([], normalCtx, [], exampleMount)"
  by (simp add: computeCheckoutActions_def canShortCircuitCheckout_def exampleMount_def
      exampleTree_def normalCtx_def)

subsection \<open>Dematerialization after a checkout\<close>

text \<open>
  C3.  After a checkout that is not a dry run, the directory is to be dematerialized only
  when its entries have the names and hashes of the entries of \<open>toTree\<close> and none is
  materialized.  The code compares the number of entries and, position by position, the
  hashes; it does not compare the names.  Here the directory lists \<open>x\<close>, the tree lists
  \<open>y\<close> with the same hash, and the directory is given the hash of the tree.
\<close>

theorem saveOverlayPostCheckout_ignores_names:
  "map fst (entries (contents (chain renamedMount ! 0))) = [''x'']
   \<and> map te_name (tree_entries targetTree) = [''y'']
   \<and> fst (saveOverlayPostCheckout normalCtx (Some targetTree) 0 0 renamedMount) = None
   \<and> contents (chain (snd (saveOverlayPostCheckout normalCtx (Some targetTree) 0 0 renamedMount)) ! 0)
      = renamedDir\<lparr>treeHash := Some (tree_hash targetTree)\<rparr>"
  by (simp add: saveOverlayPostCheckout_def renamedMount_def renamedDir_def targetTree_def
      normalCtx_def tryToDematerialize_def isMaterializedE_def EntryFromHash_def
      setContents_def snapshot_def childDematerialized_def Let_def isMaterialized_def
      exampleMount_def removeOverlayData_def)

subsection \<open>Names that a checkout does not mention\<close>

lemma setEntries_entries:
  "i < length (chain st) \<Longrightarrow> entries (contents (chain (setEntries i es st) ! i)) = es"
  by simp

lemma invalidateFuseCache_frame [simp]:
  "chain (invalidateFuseCache i nm st) = chain st"
  by (simp add: invalidateFuseCache_def)

lemma invalidateFuseCache_log:
  "\<exists>vs. fuseInvalidations (invalidateFuseCache i nm st) = fuseInvalidations st @ vs
        \<and> (\<forall>v\<in>set vs. snd v = nm)"
  by (simp add: invalidateFuseCache_def)

lemma loadChildLocked_frame:
  assumes "loadChildLocked nm entry i pendingLoads st = (n, pendingLoads1, st1)"
    and "i < length (chain st)" "nm' \<noteq> nm"
  shows "length (chain st1) = length (chain st)
    \<and> pm_find (entries (contents (chain st1 ! i))) nm' = pm_find (entries (contents (chain st ! i))) nm'
    \<and> fuseInvalidations st1 = fuseInvalidations st
    \<and> (\<exists>ps. pendingLoads1 = pendingLoads @ ps \<and> (\<forall>p\<in>set ps. pl_name p \<noteq> nm'))"
  using assms
  by (auto simp: loadChildLocked_def allocateInodeNumber_def shouldLoadChild_def Let_def
      pm_find_update_other split: option.splits if_splits prod.splits)


lemma frame_refl: "frame nm i w w"
  by (cases w) (simp add: frame_def)

lemma frame_trans: "frame nm i w1 w2 \<Longrightarrow> frame nm i w2 w3 \<Longrightarrow> frame nm i w1 w3"
  by (cases w1; cases w2; cases w3) (auto simp: frame_def)

lemma processCheckoutEntry_frame:
  assumes i: "i < length (chain st)"
    and o: "\<forall>old. oldScmEntry = Some old \<longrightarrow> te_name old \<noteq> nm'"
    and n: "\<forall>new. newScmEntry = Some new \<longrightarrow> te_name new \<noteq> nm'"
    and nn: "oldScmEntry \<noteq> None \<or> newScmEntry \<noteq> None"
    and r: "processCheckoutEntry ctx oldScmEntry newScmEntry i pendingLoads st
              = (action, ctx1, pendingLoads1, st1)"
  shows "length (chain st1) = length (chain st)
        \<and> pm_find (entries (contents (chain st1 ! i))) nm' = pm_find (entries (contents (chain st ! i))) nm'
        \<and> (\<forall>a. action = Some a \<longrightarrow> getEntryName a \<noteq> nm')
        \<and> (\<exists>cs. conflicts ctx1 = conflicts ctx @ cs \<and> (\<forall>c\<in>set cs. snd (snd c) \<noteq> nm'))
        \<and> errors ctx1 = errors ctx
        \<and> (\<exists>ps. pendingLoads1 = pendingLoads @ ps \<and> (\<forall>p\<in>set ps. pl_name p \<noteq> nm'))
        \<and> (\<exists>vs. fuseInvalidations st1 = fuseInvalidations st @ vs \<and> (\<forall>v\<in>set vs. snd v \<noteq> nm'))"
proof -
  have nm: "scmEntryName oldScmEntry newScmEntry \<noteq> nm'"
    using o n nn by (auto simp: scmEntryName_def split: option.splits)
  have nms [simp]: "\<And>old new. scmEntryName (Some old) new = te_name old"
    "\<And>new. scmEntryName None (Some new) = te_name new"
    by (simp_all add: scmEntryName_def)
  note ld = loadChildLocked_frame [where nm' = nm', OF _ i]
  show ?thesis
    using r i o n nm
    unfolding processCheckoutEntry_def Let_def
    by (auto split: if_splits option.splits prod.splits
        simp: getEntryName_def addConflict_def pm_find_emplace_other pm_find_erase_other
          pm_find_update_other invalidateFuseCache_def
        dest: ld)
qed


lemma checkoutStep_frame:
  assumes "i < length (chain (snd (snd (snd w))))"
    and "\<forall>old. oldScmEntry = Some old \<longrightarrow> te_name old \<noteq> nm'"
    and "\<forall>new. newScmEntry = Some new \<longrightarrow> te_name new \<noteq> nm'"
    and "oldScmEntry \<noteq> None \<or> newScmEntry \<noteq> None"
  shows "frame nm' i w (checkoutStep oldScmEntry newScmEntry i w)"
proof -
  obtain actions ctx pl st where w: "w = (actions, ctx, pl, st)" by (cases w) auto
  obtain action ctx1 pl1 st1 where
    r: "processCheckoutEntry ctx oldScmEntry newScmEntry i pl st = (action, ctx1, pl1, st1)"
    by (cases "processCheckoutEntry ctx oldScmEntry newScmEntry i pl st") auto
  from assms(1) w have i: "i < length (chain st)" by simp
  from processCheckoutEntry_frame [OF i assms(2) assms(3) assms(4) r]
  show ?thesis
    by (cases action) (auto simp: frame_def checkoutStep_def w r)
qed

lemma frame_length:
  "frame nm i w w' \<Longrightarrow> length (chain (snd (snd (snd w')))) = length (chain (snd (snd (snd w))))"
  by (cases w; cases w') (simp add: frame_def)

lemma checkoutWalk_frame:
  "i < length (chain (snd (snd (snd w)))) \<Longrightarrow>
   nm \<notin> te_name ` set oldEntries \<Longrightarrow> nm \<notin> te_name ` set newEntries \<Longrightarrow>
   frame nm i w (checkoutWalk oldEntries newEntries i w)"
proof (induction oldEntries newEntries i w rule: checkoutWalk.induct)
  case (1 i w)
  show ?case by (simp add: frame_refl)
next
  case (2 new newEntries i w)
  have s: "frame nm i w (checkoutStep None (Some new) i w)"
    using 2 by (intro checkoutStep_frame) auto
  with 2 frame_length [OF s] show ?case
    by (auto intro: frame_trans)
next
  case (3 old oldEntries i w)
  have s: "frame nm i w (checkoutStep (Some old) None i w)"
    using 3 by (intro checkoutStep_frame) auto
  with 3 frame_length [OF s] show ?case
    by (auto intro: frame_trans)
next
  case (4 old oldEntries new newEntries i w)
  have s1: "frame nm i w (checkoutStep (Some old) None i w)"
    using 4 by (intro checkoutStep_frame) auto
  have s2: "frame nm i w (checkoutStep None (Some new) i w)"
    using 4 by (intro checkoutStep_frame) auto
  have s3: "frame nm i w (checkoutStep (Some old) (Some new) i w)"
    using 4 by (intro checkoutStep_frame) auto
  show ?case
  proof (cases "te_name old < te_name new")
    case True
    with 4 s1 frame_length [OF s1] show ?thesis
      by (auto intro: frame_trans)
  next
    case False
    show ?thesis
    proof (cases "te_name new < te_name old")
      case True
      with False 4 s2 frame_length [OF s2] show ?thesis
        by (auto intro: frame_trans)
    next
      case f2: False
      with False 4 s3 frame_length [OF s3] show ?thesis
        by (auto intro: frame_trans)
    qed
  qed
qed

text \<open>
  C10.  During a checkout, in every mode, an entry of the directory whose name is in
  neither \<open>fromTree\<close> nor \<open>toTree\<close> is not touched by the merge walk: the entry stays as
  it is, no checkout action and no pending load is made for it, no conflict and no cache
  invalidation is reported for it, and no error is recorded.
\<close>

theorem checkout_leaves_untracked_entries_alone:
  assumes "i < length (chain st)"
    and "nm \<notin> te_name ` set (treeEntriesOf fromTree)"
    and "nm \<notin> te_name ` set (treeEntriesOf toTree)"
  shows "case computeCheckoutActions ctx fromTree toTree i st of
           (actions, ctx', pendingLoads, st') \<Rightarrow>
             pm_find (entries (contents (chain st' ! i))) nm
               = pm_find (entries (contents (chain st ! i))) nm
             \<and> (\<forall>a\<in>set actions. getEntryName a \<noteq> nm)
             \<and> (\<exists>cs. conflicts ctx' = conflicts ctx @ cs \<and> (\<forall>c\<in>set cs. snd (snd c) \<noteq> nm))
             \<and> errors ctx' = errors ctx
             \<and> (\<forall>p\<in>set pendingLoads. pl_name p \<noteq> nm)
             \<and> (\<exists>vs. fuseInvalidations st' = fuseInvalidations st @ vs
                      \<and> (\<forall>v\<in>set vs. snd v \<noteq> nm))"
proof -
  have "frame nm i ([], ctx, [], st) (computeCheckoutActions ctx fromTree toTree i st)"
    using assms checkoutWalk_frame [of i "([], ctx, [], st)" nm]
    by (simp add: computeCheckoutActions_def frame_refl)
  then show ?thesis
    by (cases "computeCheckoutActions ctx fromTree toTree i st") (auto simp: frame_def)
qed


theorem checkout_leaves_untracked_entries_alone_witness:
  "1 < length (chain untrackedMount)
   \<and> ''u'' \<notin> te_name ` set (treeEntriesOf (Some exampleTree))
   \<and> ''u'' \<notin> te_name ` set (treeEntriesOf (Some exampleTree2))
   \<and> (case computeCheckoutActions forceCtx (Some exampleTree) (Some exampleTree2) 1 untrackedMount of
         (actions, ctx', pendingLoads, st') \<Rightarrow>
           pm_find (entries (contents (chain st' ! 1))) ''u'' = Some untrackedEntry
           \<and> (\<forall>a\<in>set actions. getEntryName a \<noteq> ''u'')
           \<and> errors ctx' = []
           \<and> (\<forall>p\<in>set pendingLoads. pl_name p \<noteq> ''u''))"
proof -
  have h1: "1 < length (chain untrackedMount)"
    by (simp add: untrackedMount_def)
  have h2: "''u'' \<notin> te_name ` set (treeEntriesOf (Some exampleTree))"
    by (simp add: treeEntriesOf_def exampleTree_def)
  have h3: "''u'' \<notin> te_name ` set (treeEntriesOf (Some exampleTree2))"
    by (simp add: treeEntriesOf_def exampleTree2_def)
  have e: "pm_find (entries (contents (chain untrackedMount ! Suc 0))) ''u'' = Some untrackedEntry"
    by (simp add: untrackedMount_def pm_find_def)
  have c: "errors forceCtx = []" by (simp add: forceCtx_def)
  from checkout_leaves_untracked_entries_alone [OF h1 h2 h3, of forceCtx] h1 h2 h3
  show ?thesis by (auto simp: e c split: prod.splits)
qed

subsection \<open>Create, then unlink\<close>

lemma pm_find_update_same:
  "pm_find es nm \<noteq> None \<Longrightarrow> pm_find (pm_update nm e es) nm = Some e"
  unfolding pm_find_def pm_update_def by (induction es) auto

lemma pm_find_emplace_same:
  "pm_find es nm = None \<Longrightarrow> pm_find (pm_emplace nm e es) nm = Some e"
  unfolding pm_find_def pm_emplace_def by (induction es) auto

lemma pm_erase_update: "pm_erase nm (pm_update nm e es) = pm_erase nm es"
  unfolding pm_erase_def pm_update_def by (induction es) auto

lemma pm_erase_absent: "pm_find es nm = None \<Longrightarrow> pm_erase nm es = es"
  unfolding pm_erase_def pm_find_def by (induction es) (auto split: if_splits)

lemma pm_erase_emplace:
  "pm_find es nm = None \<Longrightarrow> pm_erase nm (pm_emplace nm e es) = es"
proof -
  assume a: "pm_find es nm = None"
  have "filter (\<lambda>p. fst p \<noteq> nm) (insort_key fst (nm, e) es) = filter (\<lambda>p. fst p \<noteq> nm) es"
    by (induction es) auto
  with a pm_erase_absent [OF a] show ?thesis
    by (simp add: pm_erase_def pm_emplace_def pm_find_def)
qed

lemma materialize_already:
  "isMaterialized (contents (chain st ! i)) \<Longrightarrow> materialize h i st = (None, st)"
  by (simp add: materialize_def)

lemma markUnlinked_loaded:
  "chainIndex st c = None \<Longrightarrow> chain (markUnlinked c st) = chain st
     \<and> overlay (markUnlinked c st) = overlay st"
  by (simp add: markUnlinked_def split: option.splits)

lemma tryRemoveChild_loaded_file:
  assumes i: "i < length (chain s)"
    and e: "pm_find (entries (contents (chain s ! i))) nm = Some ent" "inode ent = Some c"
    and c: "chainIndex s c = None" "loaded s c = Some obj" "li_kind obj = FileInode m h"
    and d: "nodeId (chain s ! i) \<noteq> dotEdenInodeNumber s"
    and mat: "isMaterialized (contents (chain s ! i))"
  shows "\<exists>s'. tryRemoveChild False nm None fl now i s = (Inr 0, s')
           \<and> entries (contents (chain s' ! i)) = pm_erase nm (entries (contents (chain s ! i)))"
  using assms
  by (simp add: tryRemoveChild_def materialize_already asSubclassPtrOrNull_def inodeKindOf_def
      checkPreRemove_def Let_def markUnlinked_loaded invalidateFuseCache_def)

lemma unlink_loaded_file:
  assumes i: "i < length (chain s)"
    and e: "pm_find (entries (contents (chain s ! i))) nm = Some ent" "inode ent = Some c"
    and c: "chainIndex s c = None" "loaded s c = Some obj" "li_kind obj = FileInode m h"
    and d: "nodeId (chain s ! i) \<noteq> dotEdenInodeNumber s"
    and mat: "isMaterialized (contents (chain s ! i))"
    and p: "getPath i s \<noteq> None"
  shows "fst (unlink nm (\<lambda>_ s. s) now i s) = Ready ()
     \<and> entries (contents (chain (snd (snd (unlink nm (\<lambda>_ s. s) now i s))) ! i))
         = pm_erase nm (entries (contents (chain s ! i)))"
proof -
  from tryRemoveChild_loaded_file [OF i e c d mat, of "\<not> isFuseRequest s" now]
  obtain s' where t: "tryRemoveChild False nm None (\<not> isFuseRequest s) now i s = (Inr 0, s')"
    and r: "entries (contents (chain s' ! i)) = pm_erase nm (entries (contents (chain s ! i)))"
    by blast
  from p obtain myPath where p': "getPath i s = Some myPath" by auto
  have g: "getOrLoadChild nm i s = (Ready c, s)"
    using e by (simp add: getOrLoadChild_def)
  have "removeImpl False nm c 1 (\<lambda>_ s. s) now i s
          = (Ready (), 0, s'\<lparr>journal := journal s' @ [REMOVED (myPath @ [nm])]\<rparr>)"
    using c t p'
    by (subst removeImpl.simps)
      (simp add: asSubclassPtrOrNull_def inodeKindOf_def checkPreRemove_def)
  with g r show ?thesis by (simp add: unlink_def)
qed

lemma tryRemoveChild_absent:
  assumes "pm_find (entries (contents (chain st ! i))) nm = None"
    and "tryRemoveChild w nm child fl now i st = (r, st1)"
  shows "entries (contents (chain st1 ! i)) = entries (contents (chain st ! i))
     \<and> r \<noteq> Inr 0 \<and> r \<noteq> Inr EBADF"
proof -
  obtain r0 st0 where m: "materialize True i st = (r0, st0)"
    by (cases "materialize True i st") auto
  from materialize_frame [OF m]
  have en: "entries (contents (chain st0 ! i)) = entries (contents (chain st ! i))" by simp
  with assms m show ?thesis
    by (auto simp: tryRemoveChild_def errno_defs split: option.splits if_splits)
qed

lemma removeImpl_absent:
  assumes "pm_find (entries (contents (chain st ! i))) nm = None"
  shows "entries (contents (chain (snd (snd (removeImpl w nm c a (\<lambda>_ s. s) now i st))) ! i))
           = entries (contents (chain st ! i))"
proof -
  obtain r st1 where t: "tryRemoveChild w nm None (\<not> isFuseRequest st) now i st = (r, st1)"
    by (cases "tryRemoveChild w nm None (\<not> isFuseRequest st) now i st") auto
  from tryRemoveChild_absent [OF assms t] t show ?thesis
    by (subst removeImpl.simps) (auto simp: Let_def split: option.splits sum.splits)
qed

lemma unlink_absent:
  assumes "pm_find (entries (contents (chain st ! i))) nm = None"
  shows "entries (contents (chain (snd (snd (unlink nm (\<lambda>_ s. s) now i st))) ! i))
           = entries (contents (chain st ! i))"
proof -
  have g: "snd (getOrLoadChild nm i st) = st"
    using assms by (simp add: getOrLoadChild_def)
  show ?thesis
  proof (cases "getOrLoadChild nm i st")
    case (Pair f st')
    with g have [simp]: "st' = st" by simp
    from Pair removeImpl_absent [OF assms] show ?thesis
      by (cases f) (simp_all add: unlink_def)
  qed
qed

lemma allocate_frame [simp]:
  "chain (st\<lparr>nextInodeNumber := n\<rparr>) = chain st"
  "locations (st\<lparr>nextInodeNumber := n\<rparr>) = locations st"
  by (simp_all add: locations_def)

lemma createOverlayFile_frame [simp]:
  "chain (createOverlayFile n t st) = chain st"
  "locations (createOverlayFile n t st) = locations st"
  "loaded (createOverlayFile n t st) = loaded st"
  "dotEdenInodeNumber (createOverlayFile n t st) = dotEdenInodeNumber st"
  by (simp_all add: createOverlayFile_def snapshot_def locations_def)

lemma setContents_more [simp]:
  "loaded (setContents j d st) = loaded st"
  "dotEdenInodeNumber (setContents j d st) = dotEdenInodeNumber st"
  "loaded (setEntries j es st) = loaded st"
  "dotEdenInodeNumber (setEntries j es st) = dotEdenInodeNumber st"
  "loaded (saveOverlayDir n d st) = loaded st"
  "dotEdenInodeNumber (saveOverlayDir n d st) = dotEdenInodeNumber st"
  by (simp_all add: setEntries_def setContents_def saveOverlayDir_def snapshot_def)

lemma inodeCreated_frame [simp]:
  "chain (inodeCreated n obj st) = chain st"
  "locations (inodeCreated n obj st) = locations st"
  "loaded (inodeCreated n obj st) = (loaded st)(n \<mapsto> obj)"
  "dotEdenInodeNumber (inodeCreated n obj st) = dotEdenInodeNumber st"
  by (simp_all add: inodeCreated_def locations_def)

lemma invalidateIfRequired_frame [simp]:
  "chain (invalidateFuseCacheIfRequired i nm st) = chain st"
  "locations (invalidateFuseCacheIfRequired i nm st) = locations st"
  "loaded (invalidateFuseCacheIfRequired i nm st) = loaded st"
  "dotEdenInodeNumber (invalidateFuseCacheIfRequired i nm st) = dotEdenInodeNumber st"
  by (simp_all add: invalidateFuseCacheIfRequired_def invalidateFuseCache_def locations_def)

lemma journal_frame [simp]:
  "locations (st\<lparr>journal := j\<rparr>) = locations st"
  by (simp add: locations_def)

lemma create_absent:
  assumes i: "i < length (chain st)"
    and absent: "pm_find (entries (contents (chain st ! i))) nm = None"
    and c: "create nm mode0 now i st = (r, st')"
  shows "(\<forall>child. r \<noteq> Ready child) \<and> entries (contents (chain st' ! i)) = entries (contents (chain st ! i))
    \<or> (\<exists>e. r = Ready (nextInodeNumber st)
          \<and> entries (contents (chain st' ! i))
               = pm_update nm e (pm_emplace nm (EntryFromNumber (S_IFREG OR (0xFFF AND mode0)) (nextInodeNumber st))
                   (entries (contents (chain st ! i))))
          \<and> inode e = Some (nextInodeNumber st)
          \<and> (\<exists>obj. loaded st' (nextInodeNumber st) = Some obj
                \<and> li_kind obj = FileInode (S_IFREG OR (0xFFF AND mode0)) None)
          \<and> locations st' = locations st
          \<and> length (chain st') = length (chain st)
          \<and> dotEdenInodeNumber st' = dotEdenInodeNumber st
          \<and> isMaterialized (contents (chain st' ! i))
          \<and> getPath i st' \<noteq> None)"
proof -
  obtain r0 st1 where m: "materialize False i st = (r0, st1)"
    by (cases "materialize False i st") auto
  note f = materialize_frame [OF m]
  from f have l: "length (chain st1) = length (chain st)" by simp
  from f have en: "entries (contents (chain st1 ! i)) = entries (contents (chain st ! i))" by simp
  from f i have mat: "isMaterialized (contents (chain st1 ! i))" by simp
  from f have loc: "locations st1 = locations st" by simp
  from f have oc: "outsideChain st1 = outsideChain st" by simp
  note of = outsideChain_fields [OF oc]
  show ?thesis
  proof (cases r0)
    case (Some ex)
    with m c en show ?thesis by (auto simp: create_def)
  next
    case None
    show ?thesis
    proof (cases "getPath i st1")
      case n: None
      with None m c en show ?thesis by (auto simp: create_def InodeError_def)
    next
      case (Some myPath)
      have i1: "i < length (chain st1)" using i l by simp
      have ab: "pm_find (entries (contents (chain st1 ! i))) nm = None" using absent en by simp
      from c None m Some i1 ab mat
      have "r = Ready (nextInodeNumber st1) \<and>
         entries (contents (chain st' ! i))
               = pm_update nm ((EntryFromNumber (S_IFREG OR (0xFFF AND mode0)) (nextInodeNumber st1))\<lparr>inode := Some (nextInodeNumber st1)\<rparr>)
                  (pm_emplace nm (EntryFromNumber (S_IFREG OR (0xFFF AND mode0)) (nextInodeNumber st1))
                   (entries (contents (chain st1 ! i))))
          \<and> (\<exists>obj. loaded st' (nextInodeNumber st1) = Some obj
                \<and> li_kind obj = FileInode (S_IFREG OR (0xFFF AND mode0)) None)
          \<and> locations st' = locations st1
          \<and> length (chain st') = length (chain st1)
          \<and> dotEdenInodeNumber st' = dotEdenInodeNumber st1
          \<and> isMaterialized (contents (chain st' ! i))"
        by (auto simp: create_def allocateInodeNumber_def Let_def isMaterialized_def)
      moreover from this have "getPath i st' = getPath i st1"
        by (intro getPath_locations) simp
      ultimately show ?thesis
        using Some en loc l of(3,4) by auto
    qed
  qed
qed

text \<open>
  C9 (as amended).  In a directory other than the reserved one, for a name that the
  directory does not have, \<open>create\<close> followed by \<open>unlink\<close> of that name, with nothing else
  happening in between, leaves the entries of the directory as they were before the
  \<open>create\<close>, whether or not the \<open>create\<close> succeeded.  (The inode number that the inode
  map hands out next is not the number of a loaded directory.)
\<close>

theorem create_then_unlink_restores_listing:
  assumes i: "i < length (chain st)"
    and absent: "pm_find (entries (contents (chain st ! i))) nm = None"
    and notDotEden: "nodeId (chain st ! i) \<noteq> dotEdenInodeNumber st"
    and fresh: "nextInodeNumber st \<notin> set (map nodeId (chain st))"
  shows "entries (contents (chain (snd (snd (unlink nm (\<lambda>_ s. s) now' i
            (snd (create nm mode0 now i st))))) ! i))
           = entries (contents (chain st ! i))"
proof -
  obtain r st' where c: "create nm mode0 now i st = (r, st')"
    by (cases "create nm mode0 now i st") auto
  from create_absent [OF i absent c]
  show ?thesis
  proof (elim disjE exE conjE)
    assume "entries (contents (chain st' ! i)) = entries (contents (chain st ! i))"
    with absent unlink_absent [of st' i nm now'] c show ?thesis by simp
  next
    fix e obj
    assume en: "entries (contents (chain st' ! i))
               = pm_update nm e (pm_emplace nm (EntryFromNumber (S_IFREG OR (0xFFF AND mode0)) (nextInodeNumber st))
                   (entries (contents (chain st ! i))))"
      and ie: "inode e = Some (nextInodeNumber st)"
      and ld: "loaded st' (nextInodeNumber st) = Some obj"
         "li_kind obj = FileInode (S_IFREG OR (0xFFF AND mode0)) None"
      and loc: "locations st' = locations st"
      and l: "length (chain st') = length (chain st)"
      and d: "dotEdenInodeNumber st' = dotEdenInodeNumber st"
      and mat: "isMaterialized (contents (chain st' ! i))"
      and p: "getPath i st' \<noteq> None"
    have i': "i < length (chain st')" using i l by simp
    have f: "pm_find (entries (contents (chain st' ! i))) nm = Some e"
      using absent by (simp add: en pm_find_update_same pm_find_emplace_same)
    have ci: "chainIndex st' (nextInodeNumber st) = None"
      using fresh chainIndex_locations [OF loc] by (simp add: chainIndex_def)
    have nd: "nodeId (chain st' ! i) \<noteq> dotEdenInodeNumber st'"
      using notDotEden d locations_nth(1) [OF loc i] by simp
    from unlink_loaded_file [OF i' f ie ci ld nd mat p, of now']
    have "entries (contents (chain (snd (snd (unlink nm (\<lambda>_ s. s) now' i st'))) ! i))
         = pm_erase nm (entries (contents (chain st' ! i)))" by simp
    with absent c show ?thesis
      by (simp add: en pm_erase_update pm_erase_emplace)
  qed
qed

theorem create_then_unlink_restores_listing_witness:
  "0 < length (chain exampleMount)
   \<and> pm_find (entries (contents (chain exampleMount ! 0))) ''n'' = None
   \<and> nodeId (chain exampleMount ! 0) \<noteq> dotEdenInodeNumber exampleMount
   \<and> nextInodeNumber exampleMount \<notin> set (map nodeId (chain exampleMount))
   \<and> entries (contents (chain (snd (snd (unlink ''n'' (\<lambda>_ s. s) 0 0
            (snd (create ''n'' 0x1A4 0 0 exampleMount))))) ! 0))
       = entries (contents (chain exampleMount ! 0))"
proof -
  have h1: "0 < length (chain exampleMount)" by (simp add: exampleMount_def)
  have h2: "pm_find (entries (contents (chain exampleMount ! 0))) ''n'' = None"
    by (simp add: exampleMount_def pm_find_def buildDirFromTree_def exampleSubTree_def
        pm_emplace_def)
  have h3: "nodeId (chain exampleMount ! 0) \<noteq> dotEdenInodeNumber exampleMount"
    by (simp add: exampleMount_def)
  have h4: "nextInodeNumber exampleMount \<notin> set (map nodeId (chain exampleMount))"
    by (simp add: exampleMount_def kRootNodeId_def)
  from create_then_unlink_restores_listing [OF h1 h2 h3 h4, of 0 "0x1A4" 0] h1 h2 h3 h4
  show ?thesis by simp
qed

text \<open>
  In the reserved directory \<open>create\<close> succeeds and \<open>unlink\<close> is refused: the file stays.
\<close>

theorem create_then_unlink_counterexample:
  "pm_find (entries (contents (chain dotEdenMount ! 0))) ''f'' = None
   \<and> entries (contents (chain dotEdenMount ! 0)) = []
   \<and> fst (create ''f'' 0x1A4 0 0 dotEdenMount) = Ready 10
   \<and> fst (unlink ''f'' (\<lambda>_ s. s) 0 0 (snd (create ''f'' 0x1A4 0 0 dotEdenMount)))
       = Failed (InodeError EPERM)
   \<and> map fst (entries (contents (chain (snd (snd (unlink ''f'' (\<lambda>_ s. s) 0 0
        (snd (create ''f'' 0x1A4 0 0 dotEdenMount))))) ! 0))) = [''f'']"
  apply (simp add: dotEdenMount_def exampleMount_def pm_find_def)
  apply (simp add: create_def  materialize_def isMaterialized_def
      getPath_def allocateInodeNumber_def Let_def pm_find_def pm_emplace_def pm_update_def
      EntryFromNumber_def unlink_def getOrLoadChild_def createOverlayFile_def snapshot_def
      setEntries_def setContents_def inodeCreated_def saveOverlayDir_def
      invalidateFuseCacheIfRequired_def)
  apply (subst removeImpl.simps)
  apply (simp add: asSubclassPtrOrNull_def inodeKindOf_def chainIndex_def kRootNodeId_def
      checkPreRemove_def getPath_def tryRemoveChild_def materialize_def isMaterialized_def
      errno_defs)
  apply (subst removeImpl.simps)
  apply (simp add: asSubclassPtrOrNull_def inodeKindOf_def chainIndex_def kRootNodeId_def
      checkPreRemove_def getPath_def tryRemoveChild_def materialize_def isMaterialized_def
      errno_defs)
  done


subsection \<open>Materialization up the chain\<close>

lemma markChildMaterialized_frame [simp]:
  "locations (markChildMaterialized i cn cid e st) = locations st"
  "outsideChain (markChildMaterialized i cn cid e st) = outsideChain st"
  "length (chain (markChildMaterialized i cn cid e st)) = length (chain st)"
  "k \<noteq> i \<Longrightarrow> chain (markChildMaterialized i cn cid e st) ! k = chain st ! k"
  "nodeId (chain (markChildMaterialized i cn cid e st) ! k) = nodeId (chain st ! k)"
  "location_name (chain (markChildMaterialized i cn cid e st) ! k) = location_name (chain st ! k)"
  "location_unlinked (chain (markChildMaterialized i cn cid e st) ! k)
     = location_unlinked (chain st ! k)"
  by (simp_all add: markChildMaterialized_def Let_def)

lemma markChildMaterialized_contents:
  "i < length (chain st) \<Longrightarrow>
   contents (chain (markChildMaterialized i cn cid e st) ! i)
     = setMaterialized ((contents (chain st ! i))
         \<lparr>entries := pm_update cn (setMaterializedE cid e) (entries (contents (chain st ! i)))\<rparr>)"
  by (simp add: markChildMaterialized_def Let_def)

lemma markChildMaterialized_overlay:
  "i < length (chain st) \<Longrightarrow>
   overlay (markChildMaterialized i cn cid e st)
     = (overlay st)(nodeId (chain st ! i) \<mapsto>
          OverlayDir (serializeDir (contents (chain (markChildMaterialized i cn cid e st) ! i))))"
  by (simp add: markChildMaterialized_def Let_def)

lemma childMaterialized_unfold:
  "childMaterialized i cn cid st =
     (case pm_find (entries (contents (chain st ! i))) cn of
        None \<Rightarrow> (Some (EdenBug ''error attempting to materialize: entry not present''), st)
      | Some e \<Rightarrow>
          if isMaterialized (contents (chain st ! i)) \<and> isMaterializedE e then (None, st)
          else if Suc i < length (chain st) \<and> \<not> location_unlinked (chain st ! i)
          then childMaterialized (Suc i) (location_name (chain st ! i)) (nodeId (chain st ! i))
                 (markChildMaterialized i cn cid e st)
          else (None, markChildMaterialized i cn cid e st))"
proof -
  have a: "Suc i < length (chain (markChildMaterialized i cn cid e st))
        \<and> \<not> location_unlinked (chain (markChildMaterialized i cn cid e st) ! i)
      \<longleftrightarrow> Suc i < length (chain st) \<and> \<not> location_unlinked (chain st ! i)" for e
    by simp
  have b: "childMaterialized i cn cid st =
     (case pm_find (entries (contents (chain st ! i))) cn of
        None \<Rightarrow> (Some (EdenBug ''error attempting to materialize: entry not present''), st)
      | Some e \<Rightarrow>
          if isMaterialized (contents (chain st ! i)) \<and> isMaterializedE e then (None, st)
          else if Suc i < length (chain (markChildMaterialized i cn cid e st))
                  \<and> \<not> location_unlinked (chain (markChildMaterialized i cn cid e st) ! i)
          then childMaterialized (Suc i)
                 (location_name (chain (markChildMaterialized i cn cid e st) ! i))
                 (nodeId (chain (markChildMaterialized i cn cid e st) ! i))
                 (markChildMaterialized i cn cid e st)
          else (None, markChildMaterialized i cn cid e st))"
    unfolding markChildMaterialized_def Let_def
    by (rule childMaterialized.simps [unfolded Let_def])
  show ?thesis
    by (subst b) (simp only: a markChildMaterialized_frame)
qed

lemma childMaterialized_induct_rule [consumes 1, case_names bug already stop up]:
  assumes run: "childMaterialized i cn cid st = (r, st')"
    and bug: "\<And>i cn cid st. pm_find (entries (contents (chain st ! i))) cn = None \<Longrightarrow>
        P i cn cid st (Some (EdenBug ''error attempting to materialize: entry not present'')) st"
    and already: "\<And>i cn cid st e. pm_find (entries (contents (chain st ! i))) cn = Some e \<Longrightarrow>
        isMaterialized (contents (chain st ! i)) \<Longrightarrow> isMaterializedE e \<Longrightarrow> P i cn cid st None st"
    and stop: "\<And>i cn cid st e. pm_find (entries (contents (chain st ! i))) cn = Some e \<Longrightarrow>
        \<not> (isMaterialized (contents (chain st ! i)) \<and> isMaterializedE e) \<Longrightarrow>
        \<not> (Suc i < length (chain st) \<and> \<not> location_unlinked (chain st ! i)) \<Longrightarrow>
        P i cn cid st None (markChildMaterialized i cn cid e st)"
    and up: "\<And>i cn cid st e r st'. pm_find (entries (contents (chain st ! i))) cn = Some e \<Longrightarrow>
        \<not> (isMaterialized (contents (chain st ! i)) \<and> isMaterializedE e) \<Longrightarrow>
        Suc i < length (chain st) \<Longrightarrow> \<not> location_unlinked (chain st ! i) \<Longrightarrow>
        childMaterialized (Suc i) (location_name (chain st ! i)) (nodeId (chain st ! i))
          (markChildMaterialized i cn cid e st) = (r, st') \<Longrightarrow>
        P (Suc i) (location_name (chain st ! i)) (nodeId (chain st ! i))
          (markChildMaterialized i cn cid e st) r st' \<Longrightarrow>
        P i cn cid st r st'"
  shows "P i cn cid st r st'"
  using run
proof (induction "length (chain st) - i" arbitrary: i cn cid st rule: less_induct)
  case less
  show ?case
  proof (cases "pm_find (entries (contents (chain st ! i))) cn")
    case None
    have "childMaterialized i cn cid st
            = (Some (EdenBug ''error attempting to materialize: entry not present''), st)"
      by (subst childMaterialized_unfold) (simp only: None option.case)
    with less.prems bug [OF None] show ?thesis by auto
  next
    case (Some e)
    show ?thesis
    proof (cases "isMaterialized (contents (chain st ! i)) \<and> isMaterializedE e")
      case True
      have "childMaterialized i cn cid st = (None, st)"
        by (subst childMaterialized_unfold) (simp only: Some option.case True if_True simp_thms)
      with True less.prems already [OF Some] show ?thesis by auto
    next
      case False
      show ?thesis
      proof (cases "Suc i < length (chain st) \<and> \<not> location_unlinked (chain st ! i)")
        case f: False
        have "childMaterialized i cn cid st = (None, markChildMaterialized i cn cid e st)"
          by (subst childMaterialized_unfold) (simp only: Some option.case False f if_False simp_thms)
        with less.prems stop [OF Some False f] show ?thesis by auto
      next
        case True
        have "childMaterialized i cn cid st =
            childMaterialized (Suc i) (location_name (chain st ! i)) (nodeId (chain st ! i))
                (markChildMaterialized i cn cid e st)"
          by (subst childMaterialized_unfold)
            (simp only: Some option.case False True if_False if_True simp_thms)
        with less.prems
        have rec: "childMaterialized (Suc i) (location_name (chain st ! i)) (nodeId (chain st ! i))
                (markChildMaterialized i cn cid e st) = (r, st')"
          by simp
        have "P (Suc i) (location_name (chain st ! i)) (nodeId (chain st ! i))
                (markChildMaterialized i cn cid e st) r st'"
          using True by (intro less.hyps rec) (simp, arith)
        with up [OF Some False _ _ rec] True show ?thesis by simp
      qed
    qed
  qed
qed

lemma pm_find_update_None:
  "pm_find (pm_update cn e es) nm = None \<longleftrightarrow> pm_find es nm = None"
  unfolding pm_find_def pm_update_def by (induction es) auto

lemma hasMaterializedEntry_update:
  "pm_find es cn = Some e0 \<Longrightarrow> isMaterializedE e \<Longrightarrow>
   hasMaterializedEntry (d\<lparr>entries := pm_update cn e es\<rparr>)"
  unfolding hasMaterializedEntry_def pm_find_def pm_update_def
  by (induction es) (auto split: if_splits)

lemma linkedBetween_locations:
  assumes "locations st' = locations st" "j < length (chain st)"
  shows "linkedBetween (chain st') k j = linkedBetween (chain st) k j"
  unfolding linkedBetween_def
  using locations_nth(3) [OF assms(1)] assms(2) by (metis less_trans)

lemma monotone_from_apart:
  assumes "monotoneApart i ch" "i < length ch" "isMaterialized (contents (ch ! i))"
  shows "monotone ch"
  unfolding monotone_def monotoneApart_def
proof (intro allI impI, elim conjE)
  fix k j
  assume kj: "k \<le> j" "j < length ch" and l: "linkedBetween ch k j"
    and d: "isMaterialized (contents (ch ! k)) \<or> hasMaterializedEntry (contents (ch ! k))"
  show "isMaterialized (contents (ch ! j))"
  proof (cases "j < i \<or> i \<le> k")
    case True
    with assms(1) kj l d show ?thesis unfolding monotoneApart_def by blast
  next
    case False
    then have "k < i" "i \<le> j" by auto
    with l have "linkedBetween ch i j" unfolding linkedBetween_def by auto
    with assms(1,3) \<open>i \<le> j\<close> kj(2) show ?thesis unfolding monotoneApart_def by blast
  qed
qed

lemma monotone_apart: "monotone ch \<Longrightarrow> monotoneApart i ch"
  unfolding monotone_def monotoneApart_def by blast

lemma markChildMaterialized_isMaterialized:
  "i < length (chain st) \<Longrightarrow>
   isMaterialized (contents (chain (markChildMaterialized i cn cid e st) ! i))"
  by (simp add: markChildMaterialized_contents setMaterialized_def isMaterialized_def)

lemma markChildMaterialized_entry:
  "i < length (chain st) \<Longrightarrow> pm_find (entries (contents (chain st ! i))) cn = Some e \<Longrightarrow>
   pm_find (entries (contents (chain (markChildMaterialized i cn cid e st) ! i))) cn
     = Some (setMaterializedE cid e)"
  by (simp add: markChildMaterialized_contents setMaterialized_def pm_find_update_same)

lemma markChildMaterialized_linked [simp]:
  "linkedBetween (chain (markChildMaterialized i cn cid e st)) k j = linkedBetween (chain st) k j"
  by (simp add: linkedBetween_def)

lemma markChildMaterialized_apart_Suc:
  assumes "monotoneApart i (chain st)" "i < length (chain st)"
  shows "monotoneApart (Suc i) (chain (markChildMaterialized i cn cid e st))"
  unfolding monotoneApart_def
proof (intro allI impI, elim conjE)
  let ?st = "markChildMaterialized i cn cid e st"
  fix k j
  assume kj: "k \<le> j" "j < length (chain ?st)" and side: "j < Suc i \<or> Suc i \<le> k"
    and l: "linkedBetween (chain ?st) k j"
    and d: "isMaterialized (contents (chain ?st ! k)) \<or> hasMaterializedEntry (contents (chain ?st ! k))"
  show "isMaterialized (contents (chain ?st ! j))"
  proof (cases "j = i")
    case True
    with assms(2) show ?thesis by (simp add: markChildMaterialized_isMaterialized)
  next
    case False
    with side kj(1) have ne: "k \<noteq> i" "j \<noteq> i" and s: "j < i \<or> i \<le> k" by auto
    with assms(1) kj l d show ?thesis
      unfolding monotoneApart_def by simp
  qed
qed

lemma markChildMaterialized_monotone_stop:
  assumes "monotoneApart i (chain st)" "i < length (chain st)"
    and "\<not> (Suc i < length (chain st) \<and> \<not> location_unlinked (chain st ! i))"
  shows "monotone (chain (markChildMaterialized i cn cid e st))"
proof -
  let ?st = "markChildMaterialized i cn cid e st"
  have "monotoneApart i (chain ?st)"
    unfolding monotoneApart_def
  proof (intro allI impI, elim conjE)
    fix k j
    assume kj: "k \<le> j" "j < length (chain ?st)" and side: "j < i \<or> i \<le> k"
      and l: "linkedBetween (chain ?st) k j"
      and d: "isMaterialized (contents (chain ?st ! k)) \<or> hasMaterializedEntry (contents (chain ?st ! k))"
    show "isMaterialized (contents (chain ?st ! j))"
    proof (cases "j = i")
      case True
      with assms(2) show ?thesis by (simp add: markChildMaterialized_isMaterialized)
    next
      case False
      show ?thesis
      proof (cases "k = i")
        case True
        with False kj have "i < j" "Suc i < length (chain st)" by auto
        with l True have "\<not> location_unlinked (chain st ! i)"
          by (auto simp: linkedBetween_def)
        with assms(3) \<open>Suc i < length (chain st)\<close> show ?thesis by simp
      next
        case ne: False
        with False assms(1) kj l d side show ?thesis
          unfolding monotoneApart_def by simp
      qed
    qed
  qed
  with assms(2) show ?thesis
    by (intro monotone_from_apart [of i]) (simp_all add: markChildMaterialized_isMaterialized)
qed

lemma childMaterialized_monotone:
  assumes "childMaterialized i cn cid st = (r, st')"
  shows "i < length (chain st) \<longrightarrow> monotoneApart i (chain st) \<longrightarrow> r = None \<longrightarrow>
     monotone (chain st') \<and> isMaterialized (contents (chain st' ! i))
     \<and> (\<exists>e. pm_find (entries (contents (chain st' ! i))) cn = Some e \<and> isMaterializedE e)"
  using assms
proof (induction rule: childMaterialized_induct_rule)
  case (bug i cn cid st)
  show ?case by simp
next
  case (already i cn cid st e)
  then show ?case by (auto intro: monotone_from_apart)
next
  case (stop i cn cid st e)
  then show ?case
    by (auto simp: markChildMaterialized_monotone_stop markChildMaterialized_isMaterialized
        markChildMaterialized_entry setMaterializedE_def isMaterializedE_def)
next
  case (up i cn cid st e r st')
  show ?case
  proof (intro impI)
    assume i: "i < length (chain st)" and m: "monotoneApart i (chain st)" and r: "r = None"
    from up(6) up(3) markChildMaterialized_apart_Suc [OF m i, of cn cid e] r
    have mono: "monotone (chain st')" by simp
    from childMaterialized_frame [OF up(5)]
    have "chain st' ! i = chain (markChildMaterialized i cn cid e st) ! i" by simp
    with mono i up(1) show "monotone (chain st') \<and> isMaterialized (contents (chain st' ! i))
     \<and> (\<exists>e. pm_find (entries (contents (chain st' ! i))) cn = Some e \<and> isMaterializedE e)"
      by (simp add: markChildMaterialized_isMaterialized markChildMaterialized_entry
          setMaterializedE_def isMaterializedE_def)
  qed
qed

lemma markChildMaterialized_lists:
  assumes "parentsListChildren (chain st)"
  shows "parentsListChildren (chain (markChildMaterialized i cn cid e st))"
proof (cases "i < length (chain st)")
  case True
  have "pm_find (entries (contents (chain (markChildMaterialized i cn cid e st) ! k))) nm = None
      \<longleftrightarrow> pm_find (entries (contents (chain st ! k))) nm = None" for k nm
    using True
    by (cases "k = i")
      (simp_all add: markChildMaterialized_contents setMaterialized_def pm_find_update_None)
  with assms show ?thesis
    unfolding parentsListChildren_def by simp
next
  case False
  then have "chain (markChildMaterialized i cn cid e st) = chain st"
    by (simp add: markChildMaterialized_def Let_def setEntries_def setContents_def snapshot_def
        saveOverlayDir_def list_update_beyond)
  with assms show ?thesis by simp
qed

lemma childMaterialized_no_bug:
  assumes "childMaterialized i cn cid st = (r, st')"
  shows "parentsListChildren (chain st) \<longrightarrow>
     pm_find (entries (contents (chain st ! i))) cn \<noteq> None \<longrightarrow>
     r = None \<and> parentsListChildren (chain st')"
  using assms
proof (induction rule: childMaterialized_induct_rule)
  case (up i cn cid st e r st')
  have "parentsListChildren (chain st) \<Longrightarrow>
      pm_find (entries (contents (chain (markChildMaterialized i cn cid e st) ! Suc i)))
        (location_name (chain st ! i)) \<noteq> None"
    using up(3,4) markChildMaterialized_lists [of st i cn cid e]
    unfolding parentsListChildren_def
    by (metis markChildMaterialized_frame(3,6,7))
  with up(6) show ?case by (simp add: markChildMaterialized_lists)
qed (simp_all add: markChildMaterialized_lists)

lemma childMaterialized_overlay_other:
  assumes "childMaterialized i cn cid st = (r, st')"
  shows "i < length (chain st) \<longrightarrow> n \<notin> nodeId ` set (drop i (chain st)) \<longrightarrow>
     overlay st' n = overlay st n"
  using assms
proof (induction rule: childMaterialized_induct_rule)
  case (stop i cn cid st e)
  show ?case
  proof (intro impI)
    assume i: "i < length (chain st)" and n: "n \<notin> nodeId ` set (drop i (chain st))"
    from i have "nodeId (chain st ! i) \<in> nodeId ` set (drop i (chain st))"
      by (metis Cons_nth_drop_Suc imageI list.set_intros(1))
    with i n show "overlay (markChildMaterialized i cn cid e st) n = overlay st n"
      by (auto simp: markChildMaterialized_overlay)
  qed
next
  case (up i cn cid st e r st')
  have i: "i < length (chain st)" using up(3) by simp
  have d: "drop i (chain st) = chain st ! i # drop (Suc i) (chain st)"
    using i by (simp add: Cons_nth_drop_Suc)
  have "map nodeId (drop (Suc i) (chain (markChildMaterialized i cn cid e st)))
          = map nodeId (drop (Suc i) (chain st))"
    by (metis drop_map locations_maps(1) markChildMaterialized_frame(1))
  then have "nodeId ` set (drop (Suc i) (chain (markChildMaterialized i cn cid e st)))
          = nodeId ` set (drop (Suc i) (chain st))"
    by (metis list.set_map)
  with up(6) up(3) d i show ?case
    by (auto simp: markChildMaterialized_overlay)
qed simp_all

lemma distinct_nodeId_above:
  assumes "distinct (map nodeId ch)" "i < length ch"
  shows "nodeId (ch ! i) \<notin> nodeId ` set (drop (Suc i) ch)"
proof
  assume "nodeId (ch ! i) \<in> nodeId ` set (drop (Suc i) ch)"
  then obtain t where t: "t \<in> set (drop (Suc i) ch)" "nodeId t = nodeId (ch ! i)" by auto
  then obtain m where m: "m < length (drop (Suc i) ch)" "drop (Suc i) ch ! m = t"
    by (auto simp: in_set_conv_nth)
  then have "Suc i + m < length ch" "ch ! (Suc i + m) = t" by auto
  with t(2) assms have "Suc i + m = i"
    by (metis distinct_conv_nth length_map nth_map)
  then show False by simp
qed

lemma materialize_unfold:
  "i < length (chain st) \<Longrightarrow>
   materialize h i st =
     (if isMaterialized (contents (chain st ! i)) then (None, st)
      else if Suc i < length (chain st) \<and> \<not> location_unlinked (chain st ! i)
      then childMaterialized (Suc i) (location_name (chain st ! i)) (nodeId (chain st ! i))
             (saveOverlayDir (nodeId (chain st ! i)) (setMaterialized (contents (chain st ! i)))
                (setContents i (setMaterialized (contents (chain st ! i))) st))
      else (None, saveOverlayDir (nodeId (chain st ! i)) (setMaterialized (contents (chain st ! i)))
                (setContents i (setMaterialized (contents (chain st ! i))) st)))"
  by (simp add: materialize_def Let_def)

lemma selfMaterialized_frame:
  fixes st i
  defines "mid \<equiv> saveOverlayDir (nodeId (chain st ! i)) (setMaterialized (contents (chain st ! i)))
             (setContents i (setMaterialized (contents (chain st ! i))) st)"
  shows "length (chain mid) = length (chain st)"
    and "k \<noteq> i \<Longrightarrow> chain mid ! k = chain st ! k"
    and "i < length (chain st) \<Longrightarrow> contents (chain mid ! i) = setMaterialized (contents (chain st ! i))"
    and "location_unlinked (chain mid ! k) = location_unlinked (chain st ! k)"
    and "location_name (chain mid ! k) = location_name (chain st ! k)"
    and "nodeId (chain mid ! k) = nodeId (chain st ! k)"
    and "locations mid = locations st"
    and "linkedBetween (chain mid) k j = linkedBetween (chain st) k j"
    and "entries (contents (chain mid ! k)) = entries (contents (chain st ! k))"
proof -
  show a: "length (chain mid) = length (chain st)"
    and b: "k \<noteq> i \<Longrightarrow> chain mid ! k = chain st ! k"
    and c: "i < length (chain st) \<Longrightarrow>
         contents (chain mid ! i) = setMaterialized (contents (chain st ! i))"
    and "location_unlinked (chain mid ! k) = location_unlinked (chain st ! k)"
    and "location_name (chain mid ! k) = location_name (chain st ! k)"
    and "nodeId (chain mid ! k) = nodeId (chain st ! k)"
    and "locations mid = locations st"
    and "linkedBetween (chain mid) k j = linkedBetween (chain st) k j"
    by (simp_all add: mid_def linkedBetween_def)
  show "entries (contents (chain mid ! k)) = entries (contents (chain st ! k))"
  proof (cases "k = i")
    case False
    then show ?thesis by (simp add: mid_def)
  next
    case True
    show ?thesis
    proof (cases "i < length (chain st)")
      case True
      with \<open>k = i\<close> show ?thesis by (simp add: mid_def setMaterialized_def)
    next
      case False
      then show ?thesis
        by (simp add: mid_def setContents_def snapshot_def list_update_beyond)
    qed
  qed
qed

lemma selfMaterialized_apart_Suc:
  assumes "monotoneApart i (chain st)" "i < length (chain st)"
  shows "monotoneApart (Suc i)
     (chain (saveOverlayDir (nodeId (chain st ! i)) (setMaterialized (contents (chain st ! i)))
               (setContents i (setMaterialized (contents (chain st ! i))) st)))"
    (is "monotoneApart _ (chain ?mid)")
  unfolding monotoneApart_def
proof (intro allI impI, elim conjE)
  fix k j
  assume kj: "k \<le> j" "j < length (chain ?mid)" and side: "j < Suc i \<or> Suc i \<le> k"
    and l: "linkedBetween (chain ?mid) k j"
    and d: "isMaterialized (contents (chain ?mid ! k)) \<or> hasMaterializedEntry (contents (chain ?mid ! k))"
  show "isMaterialized (contents (chain ?mid ! j))"
  proof (cases "j = i")
    case True
    with assms(2) show ?thesis
      by (simp add: selfMaterialized_frame(3) setMaterialized_def isMaterialized_def)
  next
    case False
    with side kj(1) have ne: "k \<noteq> i" "j \<noteq> i" and s: "j < i \<or> i \<le> k" by auto
    from l have l': "linkedBetween (chain st) k j" by (simp only: selfMaterialized_frame(8))
    from kj(2) have j': "j < length (chain st)" by (simp only: selfMaterialized_frame(1))
    from d ne have d': "isMaterialized (contents (chain st ! k))
        \<or> hasMaterializedEntry (contents (chain st ! k))"
      by (simp add: selfMaterialized_frame(2))
    from assms(1) kj(1) j' s l' d' have "isMaterialized (contents (chain st ! j))"
      unfolding monotoneApart_def by blast
    with ne show ?thesis by (simp add: selfMaterialized_frame(2))
  qed
qed

lemma selfMaterialized_monotone_stop:
  assumes "monotoneApart i (chain st)" "i < length (chain st)"
    and "\<not> (Suc i < length (chain st) \<and> \<not> location_unlinked (chain st ! i))"
  shows "monotone
     (chain (saveOverlayDir (nodeId (chain st ! i)) (setMaterialized (contents (chain st ! i)))
               (setContents i (setMaterialized (contents (chain st ! i))) st)))"
    (is "monotone (chain ?mid)")
proof -
  have m: "isMaterialized (contents (chain ?mid ! i))"
    using assms(2) by (simp add: selfMaterialized_frame(3) setMaterialized_def isMaterialized_def)
  have "monotoneApart i (chain ?mid)"
    unfolding monotoneApart_def
  proof (intro allI impI, elim conjE)
    fix k j
    assume kj: "k \<le> j" "j < length (chain ?mid)" and side: "j < i \<or> i \<le> k"
      and l: "linkedBetween (chain ?mid) k j"
      and d: "isMaterialized (contents (chain ?mid ! k)) \<or> hasMaterializedEntry (contents (chain ?mid ! k))"
    from l have l': "linkedBetween (chain st) k j" by (simp only: selfMaterialized_frame(8))
    from kj(2) have j': "j < length (chain st)" by (simp only: selfMaterialized_frame(1))
    show "isMaterialized (contents (chain ?mid ! j))"
    proof (cases "j = i")
      case True
      with m show ?thesis by simp
    next
      case False
      show ?thesis
      proof (cases "k = i")
        case True
        with False kj j' have "i < j" "Suc i < length (chain st)" by auto
        with l' True have "\<not> location_unlinked (chain st ! i)"
          by (auto simp: linkedBetween_def)
        with assms(3) \<open>Suc i < length (chain st)\<close> show ?thesis by simp
      next
        case ne: False
        from d ne have d': "isMaterialized (contents (chain st ! k))
            \<or> hasMaterializedEntry (contents (chain st ! k))"
          by (simp add: selfMaterialized_frame(2))
        from assms(1) kj(1) j' side l' d' have "isMaterialized (contents (chain st ! j))"
          unfolding monotoneApart_def by blast
        with False show ?thesis by (simp add: selfMaterialized_frame(2))
      qed
    qed
  qed
  with m assms(2) show ?thesis
    by (intro monotone_from_apart [of i]) (simp_all add: selfMaterialized_frame(1))
qed

lemma selfMaterialized_lists:
  assumes "parentsListChildren (chain st)"
  shows "parentsListChildren
     (chain (saveOverlayDir (nodeId (chain st ! i)) (setMaterialized (contents (chain st ! i)))
               (setContents i (setMaterialized (contents (chain st ! i))) st)))"
  using assms unfolding parentsListChildren_def
  by (simp only: selfMaterialized_frame(1,4,5,9))

lemma materialize_keeps_monotonicity:
  assumes i: "i < length (chain st)"
    and plc: "parentsListChildren (chain st)"
    and dist: "distinct (map nodeId (chain st))"
    and mono: "monotone (chain st)"
  shows "\<exists>st'. materialize h i st = (None, st')
     \<and> locations st' = locations st
     \<and> monotone (chain st')
     \<and> isMaterialized (contents (chain st' ! i))
     \<and> (if isMaterialized (contents (chain st ! i))
         then st' = st
         else entries (contents (chain st' ! i)) = entries (contents (chain st ! i))
              \<and> overlay st' (nodeId (chain st ! i))
                   = Some (OverlayDir (serializeDir (setMaterialized (contents (chain st ! i)))))
              \<and> st' = (if Suc i < length (chain st) \<and> \<not> location_unlinked (chain st ! i)
                        then snd (childMaterialized (Suc i) (location_name (chain st ! i))
                                    (nodeId (chain st ! i))
                                    (saveOverlayDir (nodeId (chain st ! i))
                                       (setMaterialized (contents (chain st ! i)))
                                       (setContents i (setMaterialized (contents (chain st ! i)))
                                          st)))
                        else saveOverlayDir (nodeId (chain st ! i))
                               (setMaterialized (contents (chain st ! i)))
                               (setContents i (setMaterialized (contents (chain st ! i))) st)))"
proof (cases "isMaterialized (contents (chain st ! i))")
  case True
  with i mono show ?thesis by (simp add: materialize_unfold)
next
  case False
  define mid where "mid = saveOverlayDir (nodeId (chain st ! i))
      (setMaterialized (contents (chain st ! i)))
      (setContents i (setMaterialized (contents (chain st ! i))) st)"
  note fr = selfMaterialized_frame [where st = st and i = i, folded mid_def]
  have ap: "monotoneApart i (chain st)" using mono by (rule monotone_apart)
  have mi: "isMaterialized (contents (chain mid ! i))"
    using i by (simp add: fr(3) setMaterialized_def isMaterialized_def)
  have ov: "overlay mid (nodeId (chain st ! i))
      = Some (OverlayDir (serializeDir (setMaterialized (contents (chain st ! i)))))"
    by (simp add: mid_def)
  show ?thesis
  proof (cases "Suc i < length (chain st) \<and> \<not> location_unlinked (chain st ! i)")
    case stop: False
    from False stop i have run: "materialize h i st = (None, mid)"
      by (auto simp: materialize_unfold mid_def)
    from selfMaterialized_monotone_stop [OF ap i stop]
    have "monotone (chain mid)" by (simp only: mid_def)
    with run False stop mi ov fr(7) fr(9) [of i] show ?thesis
      by (auto simp: mid_def [symmetric])
  next
    case up: True
    obtain r st' where rec: "childMaterialized (Suc i) (location_name (chain st ! i))
        (nodeId (chain st ! i)) mid = (r, st')"
      by (cases "childMaterialized (Suc i) (location_name (chain st ! i))
        (nodeId (chain st ! i)) mid") auto
    from False up i rec have run: "materialize h i st = (r, st')"
      by (simp add: materialize_unfold mid_def)
    have plc': "parentsListChildren (chain mid)"
      unfolding mid_def by (rule selfMaterialized_lists [OF plc])
    from plc up have "pm_find (entries (contents (chain st ! Suc i))) (location_name (chain st ! i))
        \<noteq> None"
      unfolding parentsListChildren_def by simp
    then have "pm_find (entries (contents (chain mid ! Suc i))) (location_name (chain st ! i))
        \<noteq> None"
      by (simp add: fr(9))
    with childMaterialized_no_bug [OF rec] plc' have r: "r = None" by simp
    have ap': "monotoneApart (Suc i) (chain mid)"
      unfolding mid_def by (rule selfMaterialized_apart_Suc [OF ap i])
    from childMaterialized_monotone [OF rec] up ap' r
    have m': "monotone (chain st')" by (simp add: fr(1))
    note f = childMaterialized_frame [OF rec]
    from f have same: "chain st' ! i = chain mid ! i" by simp
    have "map nodeId (chain mid) = map nodeId (chain st)"
      by (metis locations_maps(1) fr(7))
    with dist have "distinct (map nodeId (chain mid))" by simp
    from distinct_nodeId_above [OF this, of i] i
    have "nodeId (chain st ! i) \<notin> nodeId ` set (drop (Suc i) (chain mid))"
      by (simp add: fr(1) fr(6))
    with childMaterialized_overlay_other [OF rec, of "nodeId (chain st ! i)"] up
    have "overlay st' (nodeId (chain st ! i)) = overlay mid (nodeId (chain st ! i))"
      by (simp add: fr(1))
    with run r False up m' same mi ov f fr(7) fr(9) [of i] rec show ?thesis
      by (auto simp: mid_def [symmetric])
  qed
qed

lemma childMaterialized_apart_run:
  assumes i: "i < length (chain st)"
    and ap: "monotoneApart i (chain st)"
    and plc: "parentsListChildren (chain st)"
    and e: "pm_find (entries (contents (chain st ! i))) cn = Some e"
    and dist: "distinct (map nodeId (chain st))"
  shows "\<exists>st'. childMaterialized i cn cid st = (None, st')
     \<and> locations st' = locations st
     \<and> monotone (chain st')
     \<and> (\<forall>j. i \<le> j \<and> j < length (chain st') \<and> linkedBetween (chain st') i j
           \<longrightarrow> isMaterialized (contents (chain st' ! j)))
     \<and> (\<exists>e'. pm_find (entries (contents (chain st' ! i))) cn = Some e' \<and> isMaterializedE e')
     \<and> (if isMaterialized (contents (chain st ! i)) \<and> isMaterializedE e
         then st' = st
         else pm_find (entries (contents (chain st' ! i))) cn = Some (setMaterializedE cid e)
              \<and> overlay st' (nodeId (chain st ! i))
                   = Some (OverlayDir (serializeDir (contents (chain st' ! i))))
              \<and> st' = (if Suc i < length (chain st) \<and> \<not> location_unlinked (chain st ! i)
                        then snd (childMaterialized (Suc i) (location_name (chain st ! i))
                                    (nodeId (chain st ! i)) (markChildMaterialized i cn cid e st))
                        else markChildMaterialized i cn cid e st))"
proof -
  obtain r st' where run: "childMaterialized i cn cid st = (r, st')"
    by (cases "childMaterialized i cn cid st") auto
  from childMaterialized_no_bug [OF run] plc e have r: "r = None" by simp
  from childMaterialized_monotone [OF run] i ap r
  have m: "monotone (chain st')" "isMaterialized (contents (chain st' ! i))"
    "\<exists>e'. pm_find (entries (contents (chain st' ! i))) cn = Some e' \<and> isMaterializedE e'"
    by simp_all
  have anc: "\<forall>j. i \<le> j \<and> j < length (chain st') \<and> linkedBetween (chain st') i j
           \<longrightarrow> isMaterialized (contents (chain st' ! j))"
    using m(1,2) unfolding monotone_def monotoneApart_def by blast
  let ?cm = "markChildMaterialized i cn cid e st"
  have rest: "if isMaterialized (contents (chain st ! i)) \<and> isMaterializedE e
         then st' = st
         else pm_find (entries (contents (chain st' ! i))) cn = Some (setMaterializedE cid e)
              \<and> overlay st' (nodeId (chain st ! i))
                   = Some (OverlayDir (serializeDir (contents (chain st' ! i))))
              \<and> st' = (if Suc i < length (chain st) \<and> \<not> location_unlinked (chain st ! i)
                        then snd (childMaterialized (Suc i) (location_name (chain st ! i))
                                    (nodeId (chain st ! i)) ?cm)
                        else ?cm)"
  proof (cases "isMaterialized (contents (chain st ! i)) \<and> isMaterializedE e")
    case True
    with run e show ?thesis by (simp add: childMaterialized_unfold [of i])
  next
    case False
    show ?thesis
    proof (cases "Suc i < length (chain st) \<and> \<not> location_unlinked (chain st ! i)")
      case up: True
      from run e False up
      have rec: "childMaterialized (Suc i) (location_name (chain st ! i)) (nodeId (chain st ! i)) ?cm
                   = (r, st')"
        by (simp add: childMaterialized_unfold [of i])
      from childMaterialized_frame [OF rec]
      have same: "chain st' ! i = chain ?cm ! i" by simp
      have "map nodeId (chain ?cm) = map nodeId (chain st)"
        by (metis locations_maps(1) markChildMaterialized_frame(1))
      with dist have "distinct (map nodeId (chain ?cm))" by simp
      from distinct_nodeId_above [OF this, of i] i
      have "nodeId (chain st ! i) \<notin> nodeId ` set (drop (Suc i) (chain ?cm))" by simp
      with childMaterialized_overlay_other [OF rec, of "nodeId (chain st ! i)"] up
      have "overlay st' (nodeId (chain st ! i)) = overlay ?cm (nodeId (chain st ! i))" by simp
      with same rec i e False up show ?thesis
        by (auto simp: markChildMaterialized_entry markChildMaterialized_overlay)
    next
      case stop: False
      from run e False stop have "st' = ?cm"
        by (simp add: childMaterialized_unfold [of i])
      with i e False stop show ?thesis
        by (auto simp: markChildMaterialized_entry markChildMaterialized_overlay)
    qed
  qed
  from childMaterialized_frame [OF run] have "locations st' = locations st" by simp
  with run r m anc rest show ?thesis by blast
qed


lemma monotone_ancestors:
  assumes "monotone ch" "isMaterialized (contents (ch ! i))"
  shows "\<forall>j. i \<le> j \<and> j < length ch \<and> linkedBetween ch i j \<longrightarrow> isMaterialized (contents (ch ! j))"
  using assms unfolding monotone_def monotoneApart_def by blast

text \<open>
  C2 (as amended).  Materialization monotonicity holds before and after a materialization,
  not in between.  On a chain on which inode numbers are pairwise different and every
  linked inode is listed by its parent:

  \<^item> \<open>childMaterialized\<close> on directory \<open>i\<close>, for an entry that the directory has, called
    when monotonicity holds apart from the pairs of a directory below \<open>i\<close> and one from \<open>i\<close>
    upwards (which is how \<open>materialize\<close> calls it for a directory that it has just
    marked), raises no bug, and afterwards monotonicity holds, the entry is materialized,
    and the directory and every ancestor still linked to it are materialized.  When the
    directory is already materialized and the entry already marked, nothing is done:
    nothing is persisted and the parent is not told.  Otherwise the entry is marked
    materialized with the number of the child, the directory is marked materialized and
    its listing persisted, and the parent of the directory is told with the name and
    number of the directory, unless the directory is unlinked or has no parent.

  \<^item> \<open>materialize\<close> on directory \<open>i\<close>, called when monotonicity holds, raises no bug, and
    afterwards monotonicity holds again and the directory and every ancestor still linked
    to it are materialized.  A directory that is materialized already is left alone;
    otherwise it is marked, its listing persisted, and its parent told, unless it is
    unlinked or has no parent.
\<close>

theorem childMaterialized_keeps_monotonicity:
  assumes i: "i < length (chain st)"
    and plc: "parentsListChildren (chain st)"
    and dist: "distinct (map nodeId (chain st))"
  shows "(monotoneApart i (chain st) \<and> pm_find (entries (contents (chain st ! i))) cn = Some e \<longrightarrow>
      (\<exists>st'. childMaterialized i cn cid st = (None, st')
         \<and> locations st' = locations st
         \<and> monotone (chain st')
         \<and> (\<forall>j. i \<le> j \<and> j < length (chain st') \<and> linkedBetween (chain st') i j
               \<longrightarrow> isMaterialized (contents (chain st' ! j)))
         \<and> (\<exists>e'. pm_find (entries (contents (chain st' ! i))) cn = Some e' \<and> isMaterializedE e')
         \<and> (if isMaterialized (contents (chain st ! i)) \<and> isMaterializedE e
             then st' = st
             else pm_find (entries (contents (chain st' ! i))) cn = Some (setMaterializedE cid e)
                  \<and> overlay st' (nodeId (chain st ! i))
                       = Some (OverlayDir (serializeDir (contents (chain st' ! i))))
                  \<and> st' = (if Suc i < length (chain st) \<and> \<not> location_unlinked (chain st ! i)
                            then snd (childMaterialized (Suc i) (location_name (chain st ! i))
                                        (nodeId (chain st ! i))
                                        (markChildMaterialized i cn cid e st))
                            else markChildMaterialized i cn cid e st))))
   \<and> (monotone (chain st) \<longrightarrow>
      (\<exists>st'. materialize h i st = (None, st')
         \<and> locations st' = locations st
         \<and> monotone (chain st')
         \<and> (\<forall>j. i \<le> j \<and> j < length (chain st') \<and> linkedBetween (chain st') i j
               \<longrightarrow> isMaterialized (contents (chain st' ! j)))
         \<and> (if isMaterialized (contents (chain st ! i))
             then st' = st
             else entries (contents (chain st' ! i)) = entries (contents (chain st ! i))
                  \<and> overlay st' (nodeId (chain st ! i))
                       = Some (OverlayDir (serializeDir (setMaterialized (contents (chain st ! i)))))
                  \<and> st' = (if Suc i < length (chain st) \<and> \<not> location_unlinked (chain st ! i)
                            then snd (childMaterialized (Suc i) (location_name (chain st ! i))
                                        (nodeId (chain st ! i))
                                        (saveOverlayDir (nodeId (chain st ! i))
                                           (setMaterialized (contents (chain st ! i)))
                                           (setContents i
                                              (setMaterialized (contents (chain st ! i))) st)))
                            else saveOverlayDir (nodeId (chain st ! i))
                                   (setMaterialized (contents (chain st ! i)))
                                   (setContents i (setMaterialized (contents (chain st ! i)))
                                      st)))))"
proof (intro conjI impI)
  assume "monotoneApart i (chain st) \<and> pm_find (entries (contents (chain st ! i))) cn = Some e"
  then have ap: "monotoneApart i (chain st)"
    and e: "pm_find (entries (contents (chain st ! i))) cn = Some e" by simp_all
  show "\<exists>st'. childMaterialized i cn cid st = (None, st')
         \<and> locations st' = locations st
         \<and> monotone (chain st')
         \<and> (\<forall>j. i \<le> j \<and> j < length (chain st') \<and> linkedBetween (chain st') i j
               \<longrightarrow> isMaterialized (contents (chain st' ! j)))
         \<and> (\<exists>e'. pm_find (entries (contents (chain st' ! i))) cn = Some e' \<and> isMaterializedE e')
         \<and> (if isMaterialized (contents (chain st ! i)) \<and> isMaterializedE e
             then st' = st
             else pm_find (entries (contents (chain st' ! i))) cn = Some (setMaterializedE cid e)
                  \<and> overlay st' (nodeId (chain st ! i))
                       = Some (OverlayDir (serializeDir (contents (chain st' ! i))))
                  \<and> st' = (if Suc i < length (chain st) \<and> \<not> location_unlinked (chain st ! i)
                            then snd (childMaterialized (Suc i) (location_name (chain st ! i))
                                        (nodeId (chain st ! i))
                                        (markChildMaterialized i cn cid e st))
                            else markChildMaterialized i cn cid e st))"
    by (rule childMaterialized_apart_run [OF i ap plc e dist])
next
  assume mono: "monotone (chain st)"
  from materialize_keeps_monotonicity [OF i plc dist mono, of h]
  obtain st' where st': "materialize h i st = (None, st')"
    "locations st' = locations st" "monotone (chain st')"
    "isMaterialized (contents (chain st' ! i))"
    "if isMaterialized (contents (chain st ! i))
         then st' = st
         else entries (contents (chain st' ! i)) = entries (contents (chain st ! i))
              \<and> overlay st' (nodeId (chain st ! i))
                   = Some (OverlayDir (serializeDir (setMaterialized (contents (chain st ! i)))))
              \<and> st' = (if Suc i < length (chain st) \<and> \<not> location_unlinked (chain st ! i)
                        then snd (childMaterialized (Suc i) (location_name (chain st ! i))
                                    (nodeId (chain st ! i))
                                    (saveOverlayDir (nodeId (chain st ! i))
                                       (setMaterialized (contents (chain st ! i)))
                                       (setContents i (setMaterialized (contents (chain st ! i)))
                                          st)))
                        else saveOverlayDir (nodeId (chain st ! i))
                               (setMaterialized (contents (chain st ! i)))
                               (setContents i (setMaterialized (contents (chain st ! i))) st))"
    by blast
  from monotone_ancestors [OF st'(3,4)] st'
  show "\<exists>st'. materialize h i st = (None, st')
         \<and> locations st' = locations st
         \<and> monotone (chain st')
         \<and> (\<forall>j. i \<le> j \<and> j < length (chain st') \<and> linkedBetween (chain st') i j
               \<longrightarrow> isMaterialized (contents (chain st' ! j)))
         \<and> (if isMaterialized (contents (chain st ! i))
             then st' = st
             else entries (contents (chain st' ! i)) = entries (contents (chain st ! i))
                  \<and> overlay st' (nodeId (chain st ! i))
                       = Some (OverlayDir (serializeDir (setMaterialized (contents (chain st ! i)))))
                  \<and> st' = (if Suc i < length (chain st) \<and> \<not> location_unlinked (chain st ! i)
                            then snd (childMaterialized (Suc i) (location_name (chain st ! i))
                                        (nodeId (chain st ! i))
                                        (saveOverlayDir (nodeId (chain st ! i))
                                           (setMaterialized (contents (chain st ! i)))
                                           (setContents i
                                              (setMaterialized (contents (chain st ! i))) st)))
                            else saveOverlayDir (nodeId (chain st ! i))
                                   (setMaterialized (contents (chain st ! i)))
                                   (setContents i (setMaterialized (contents (chain st ! i)))
                                      st)))"
    by blast
qed

lemma exampleMount_monotone: "monotone (chain exampleMount)"
  by (auto simp: monotone_def monotoneApart_def exampleMount_def isMaterialized_def
      hasMaterializedEntry_def isMaterializedE_def EntryFromHash_def buildDirFromTree_def
      exampleSubTree_def pm_emplace_def less_Suc_eq nth_Cons')

theorem childMaterialized_keeps_monotonicity_witness:
  "0 < length (chain exampleMount)
   \<and> monotone (chain exampleMount)
   \<and> monotoneApart 0 (chain exampleMount)
   \<and> parentsListChildren (chain exampleMount)
   \<and> pm_find (entries (contents (chain exampleMount ! 0))) ''c''
        = Some (EntryFromHash (modeFromTreeEntryType REGULAR_FILE) 4)
   \<and> distinct (map nodeId (chain exampleMount))
   \<and> \<not> isMaterialized (contents (chain exampleMount ! 1))
   \<and> (\<exists>st'. childMaterialized 0 ''c'' 9 exampleMount = (None, st')
          \<and> monotone (chain st')
          \<and> isMaterialized (contents (chain st' ! 0))
          \<and> isMaterialized (contents (chain st' ! 1)))
   \<and> (\<exists>st'. materialize True 0 exampleMount = (None, st')
          \<and> monotone (chain st')
          \<and> isMaterialized (contents (chain st' ! 0))
          \<and> isMaterialized (contents (chain st' ! 1)))
   \<and> 1 < length (chain midMount)
   \<and> \<not> monotone (chain midMount)
   \<and> monotoneApart 1 (chain midMount)
   \<and> parentsListChildren (chain midMount)
   \<and> distinct (map nodeId (chain midMount))
   \<and> pm_find (entries (contents (chain midMount ! 1))) ''d''
        = Some ((EntryFromHash (modeFromTreeEntryType TREE) 3)
                  \<lparr>inodeNumber := Some 5, inode := Some 5\<rparr>)
   \<and> (\<exists>st'. childMaterialized 1 ''d'' 5 midMount = (None, st')
          \<and> monotone (chain st')
          \<and> isMaterialized (contents (chain st' ! 1))
          \<and> pm_find (entries (contents (chain st' ! 1))) ''d''
               = Some (setMaterializedE 5 ((EntryFromHash (modeFromTreeEntryType TREE) 3)
                                             \<lparr>inodeNumber := Some 5, inode := Some 5\<rparr>)))"
proof -
  have h1: "0 < length (chain exampleMount)" by (simp add: exampleMount_def)
  have h2: "monotoneApart 0 (chain exampleMount)"
    using exampleMount_monotone by (simp add: monotone_def)
  have h3: "parentsListChildren (chain exampleMount)"
    by (auto simp: parentsListChildren_def exampleMount_def pm_find_def)
  have h4: "pm_find (entries (contents (chain exampleMount ! 0))) ''c''
        = Some (EntryFromHash (modeFromTreeEntryType REGULAR_FILE) 4)"
    by (simp add: exampleMount_def pm_find_def buildDirFromTree_def exampleSubTree_def
        pm_emplace_def)
  have h5: "distinct (map nodeId (chain exampleMount))"
    by (simp add: exampleMount_def kRootNodeId_def)
  have n: "\<not> isMaterialized (contents (chain exampleMount ! 1))"
    by (simp add: exampleMount_def isMaterialized_def)
  have l: "linkedBetween (chain exampleMount) 0 1"
    by (simp add: linkedBetween_def exampleMount_def)
  have len: "length (chain exampleMount) = 2" by (simp add: exampleMount_def)
  have id5: "nodeId (chain exampleMount ! 0) = 5" by (simp add: exampleMount_def)
  note t = childMaterialized_keeps_monotonicity [OF h1 h3 h5]
  from t [where cn = "''c''" and e = "EntryFromHash (modeFromTreeEntryType REGULAR_FILE) 4"
      and cid = 9, THEN conjunct1, THEN mp, OF conjI [OF h2 h4]]
  obtain st' where st': "childMaterialized 0 ''c'' 9 exampleMount = (None, st')"
    "locations st' = locations exampleMount" "monotone (chain st')"
    "\<forall>j. 0 \<le> j \<and> j < length (chain st') \<and> linkedBetween (chain st') 0 j
           \<longrightarrow> isMaterialized (contents (chain st' ! j))"
    by (elim exE conjE) blast
  from locations_length [OF st'(2)] have len': "length (chain st') = 2"
    using len by simp
  from linkedBetween_locations [OF st'(2), of 1 0] l len
  have "linkedBetween (chain st') 0 1" by simp
  with st'(4) len' have "isMaterialized (contents (chain st' ! 1))" by simp
  moreover from st'(4) len' have "isMaterialized (contents (chain st' ! 0))"
    by (simp add: linkedBetween_def)
  ultimately have A: "\<exists>st'. childMaterialized 0 ''c'' 9 exampleMount = (None, st')
          \<and> monotone (chain st')
          \<and> isMaterialized (contents (chain st' ! 0))
          \<and> isMaterialized (contents (chain st' ! 1))"
    using st'(1,3) by blast
  from t [where h = True, THEN conjunct2, THEN mp, OF exampleMount_monotone]
  obtain sm where sm: "materialize True 0 exampleMount = (None, sm)"
    "locations sm = locations exampleMount" "monotone (chain sm)"
    "\<forall>j. 0 \<le> j \<and> j < length (chain sm) \<and> linkedBetween (chain sm) 0 j
           \<longrightarrow> isMaterialized (contents (chain sm ! j))"
    by (elim exE conjE) blast
  from locations_length [OF sm(2)] have lenm: "length (chain sm) = 2"
    using len by simp
  from linkedBetween_locations [OF sm(2), of 1 0] l len
  have "linkedBetween (chain sm) 0 1" by simp
  with sm(4) lenm have "isMaterialized (contents (chain sm ! 1))" by simp
  moreover from sm(4) lenm have "isMaterialized (contents (chain sm ! 0))"
    by (simp add: linkedBetween_def)
  ultimately have B: "\<exists>st'. materialize True 0 exampleMount = (None, st')
          \<and> monotone (chain st')
          \<and> isMaterialized (contents (chain st' ! 0))
          \<and> isMaterialized (contents (chain st' ! 1))"
    using sm(1,3) by blast
  have mid: "midMount = saveOverlayDir (nodeId (chain exampleMount ! 0))
       (setMaterialized (contents (chain exampleMount ! 0)))
       (setContents 0 (setMaterialized (contents (chain exampleMount ! 0))) exampleMount)"
    by (simp add: midMount_def id5)
  note fr = selfMaterialized_frame [where st = exampleMount and i = 0, folded mid]
  have m1: "1 < length (chain midMount)" by (simp add: fr(1) len)
  have m2: "monotoneApart 1 (chain midMount)"
    using selfMaterialized_apart_Suc [OF h2 h1] by (simp add: mid)
  have m3: "parentsListChildren (chain midMount)"
    unfolding mid by (rule selfMaterialized_lists [OF h3])
  have m4: "distinct (map nodeId (chain midMount))"
    using h5 by (metis locations_maps(1) fr(7))
  have m5: "pm_find (entries (contents (chain midMount ! 1))) ''d''
        = Some ((EntryFromHash (modeFromTreeEntryType TREE) 3)
                  \<lparr>inodeNumber := Some 5, inode := Some 5\<rparr>)"
    by (simp add: fr(2)) (simp add: exampleMount_def pm_find_def)
  have m6: "\<not> monotone (chain midMount)"
  proof
    assume "monotone (chain midMount)"
    moreover have "isMaterialized (contents (chain midMount ! 0))"
      using h1 by (simp add: fr(3) setMaterialized_def isMaterialized_def)
    moreover have "linkedBetween (chain midMount) 0 1" using l by (simp add: fr(8))
    ultimately have "isMaterialized (contents (chain midMount ! 1))"
      using m1 unfolding monotone_def monotoneApart_def by blast
    with n show False by (simp add: fr(2))
  qed
  have nm: "\<not> (isMaterialized (contents (chain midMount ! 1))
      \<and> isMaterializedE ((EntryFromHash (modeFromTreeEntryType TREE) 3)
                  \<lparr>inodeNumber := Some 5, inode := Some 5\<rparr>))"
    by (simp add: isMaterializedE_def EntryFromHash_def)
  from childMaterialized_keeps_monotonicity [OF m1 m3 m4, where cn = "''d''"
      and e = "(EntryFromHash (modeFromTreeEntryType TREE) 3)\<lparr>inodeNumber := Some 5, inode := Some 5\<rparr>"
      and cid = 5, THEN conjunct1, THEN mp, OF conjI [OF m2 m5]]
  obtain sd where sd: "childMaterialized 1 ''d'' 5 midMount = (None, sd)"
    "monotone (chain sd)"
    "\<forall>j. 1 \<le> j \<and> j < length (chain sd) \<and> linkedBetween (chain sd) 1 j
           \<longrightarrow> isMaterialized (contents (chain sd ! j))"
    "locations sd = locations midMount"
    and sd': "if isMaterialized (contents (chain midMount ! 1))
         \<and> isMaterializedE ((EntryFromHash (modeFromTreeEntryType TREE) 3)
                  \<lparr>inodeNumber := Some 5, inode := Some 5\<rparr>)
       then sd = midMount
       else pm_find (entries (contents (chain sd ! 1))) ''d''
              = Some (setMaterializedE 5 ((EntryFromHash (modeFromTreeEntryType TREE) 3)
                                     \<lparr>inodeNumber := Some 5, inode := Some 5\<rparr>))
            \<and> overlay sd (nodeId (chain midMount ! 1))
                 = Some (OverlayDir (serializeDir (contents (chain sd ! 1))))
            \<and> sd = (if Suc 1 < length (chain midMount) \<and> \<not> location_unlinked (chain midMount ! 1)
                     then snd (childMaterialized (Suc 1) (location_name (chain midMount ! 1))
                                 (nodeId (chain midMount ! 1))
                                 (markChildMaterialized 1 ''d'' 5
                                    ((EntryFromHash (modeFromTreeEntryType TREE) 3)
                                       \<lparr>inodeNumber := Some 5, inode := Some 5\<rparr>) midMount))
                     else markChildMaterialized 1 ''d'' 5
                            ((EntryFromHash (modeFromTreeEntryType TREE) 3)
                               \<lparr>inodeNumber := Some 5, inode := Some 5\<rparr>) midMount)"
    by (elim exE conjE) blast
  note sd5 = sd' [unfolded if_not_P [OF nm], THEN conjunct1]
  from locations_length [OF sd(4)] m1 have "1 < length (chain sd)"
    by simp
  with sd(3) have "isMaterialized (contents (chain sd ! 1))"
    by (simp add: linkedBetween_def)
  with sd sd5 have C: "\<exists>st'. childMaterialized 1 ''d'' 5 midMount = (None, st')
          \<and> monotone (chain st')
          \<and> isMaterialized (contents (chain st' ! 1))
          \<and> pm_find (entries (contents (chain st' ! 1))) ''d''
               = Some (setMaterializedE 5 ((EntryFromHash (modeFromTreeEntryType TREE) 3)
                                             \<lparr>inodeNumber := Some 5, inode := Some 5\<rparr>))"
    by blast
  show ?thesis
    by (intro conjI h1 exampleMount_monotone h2 h3 h4 h5 n A B m1 m6 m2 m3 m4 m5 C)
qed

text \<open>
  In \<open>materialize\<close> the directory \<open>d\<close> is marked materialized, and persisted, before the
  root is told: in the state after the first write monotonicity does not hold.  And in a
  chain of three materialized directories, telling the middle one about its materialized
  child does nothing although it is linked and has a parent; materializing a file in the
  lowest one makes three writes, all of them to the lowest directory.
\<close>

theorem childMaterialized_counterexample:
  "monotone (chain exampleMount)
   \<and> \<not> monotone (fst (hd (history (snd (materialize False 0 exampleMount)))))
   \<and> \<not> location_unlinked (chain deepMount ! 1) \<and> Suc 1 < length (chain deepMount)
   \<and> childMaterialized 1 ''d2'' 6 deepMount = (None, deepMount)
   \<and> length (history (snd (childMaterialized 0 ''f'' 9 deepMount))) = 3"
proof -
  have h: "fst (hd (history (snd (materialize False 0 exampleMount))))
      = [\<lparr>nodeId = 5, location_name = ''d'', location_unlinked = False,
          contents = setMaterialized (buildDirFromTree (Some exampleSubTree) 0)\<rparr>,
         chain exampleMount ! 1]"
    by (simp add: materialize_def exampleMount_def isMaterialized_def buildDirFromTree_def
        Let_def setContents_def snapshot_def saveOverlayDir_def childMaterialized_unfold
        pm_find_def markChildMaterialized_def setEntries_def isMaterializedE_def
        EntryFromHash_def setMaterialized_def)
  have a: "\<not> monotone (fst (hd (history (snd (materialize False 0 exampleMount)))))"
  proof
    assume "monotone (fst (hd (history (snd (materialize False 0 exampleMount)))))"
    then have "isMaterialized (contents (chain exampleMount ! 1))"
      unfolding h monotone_def monotoneApart_def
      by (elim allE [of _ 0] allE [of _ 1])
        (simp add: linkedBetween_def isMaterialized_def setMaterialized_def)
    then show False by (simp add: exampleMount_def isMaterialized_def)
  qed
  have b: "\<not> location_unlinked (chain deepMount ! 1) \<and> Suc 1 < length (chain deepMount)"
    by (simp add: deepMount_def)
  have c: "childMaterialized 1 ''d2'' 6 deepMount = (None, deepMount)"
    by (simp add: childMaterialized_unfold deepMount_def pm_find_def isMaterialized_def
        isMaterializedE_def EntryFromNumber_def)
  have d: "length (history (snd (childMaterialized 0 ''f'' 9 deepMount))) = 3"
    by (simp add: childMaterialized_unfold deepMount_def pm_find_def isMaterialized_def
        isMaterializedE_def EntryFromNumber_def EntryFromHash_def markChildMaterialized_def
        setEntries_def setContents_def snapshot_def saveOverlayDir_def Let_def pm_update_def
        setMaterializedE_def setMaterialized_def exampleMount_def)
  from exampleMount_monotone a b c d show ?thesis by blast
qed

subsection \<open>Retries of a removal\<close>

lemma tryRemoveChild_EBADF:
  assumes "tryRemoveChild wantTree nm None fl now i st = (Inr EBADF, st1)"
  shows "\<exists>ent. pm_find (entries (contents (chain st1 ! i))) nm = Some ent \<and> inode ent = None"
proof -
  obtain r0 st0 where m: "materialize True i st = (r0, st0)"
    by (cases "materialize True i st") auto
  from assms m show ?thesis
    by (auto simp: tryRemoveChild_def errno_defs WRONG_TYPE_ERRNO_def checkPreRemove_def Let_def
        split: option.splits if_splits sum.splits InodeKind.splits)
qed

lemma removeImpl_reloads:
  "fst (snd (removeImpl wantTree nm child attemptNum env now i st))
     \<le> Suc kMaxRemoveRetries - attemptNum"
proof (induction wantTree nm child attemptNum env now i st rule: removeImpl.induct)
  case (1 wantTree nm childBasePtr attemptNum env now i st0)
  define st where "st = env attemptNum st0"
  show ?case
  proof (cases "asSubclassPtrOrNull wantTree st childBasePtr
                \<and> checkPreRemove wantTree st childBasePtr = 0")
    case False
    then show ?thesis
      by (subst removeImpl.simps) (auto simp: st_def Let_def)
  next
    case ok: True
    show ?thesis
    proof (cases "getPath i st")
      case None
      with ok show ?thesis
        by (subst removeImpl.simps) (auto simp: st_def Let_def)
    next
      case (Some myPath)
      obtain r st1 where t: "tryRemoveChild wantTree nm None (\<not> isFuseRequest st) now i st = (r, st1)"
        by (cases "tryRemoveChild wantTree nm None (\<not> isFuseRequest st) now i st") auto
      show ?thesis
      proof (cases "r = Inr EBADF \<and> \<not> attemptNum > kMaxRemoveRetries")
        case False
        with ok Some t show ?thesis
          by (subst removeImpl.simps)
            (auto simp: st_def [symmetric] Let_def errno_defs split: sum.splits)
      next
        case retry: True
        obtain f st2 where g: "getOrLoadChild nm i st1 = (f, st2)"
          by (cases "getOrLoadChild nm i st1") auto
        show ?thesis
        proof (cases f)
          case (Ready loadedChild)
          have eb: "EBADF \<noteq> 0" by (simp add: errno_defs)
          from retry have r: "r = Inr EBADF" and a: "\<not> kMaxRemoveRetries < attemptNum" by auto
          have "fst (snd (removeImpl wantTree nm loadedChild (attemptNum + 1) env now i st2))
                  \<le> Suc kMaxRemoveRetries - (attemptNum + 1)"
            using ok Some t [unfolded r] eb a g [unfolded Ready]
            by (intro "1.IH" [OF st_def _ refl _ Some _ refl]) (auto simp: st_def)
          with ok Some t retry g Ready show ?thesis
            by (subst removeImpl.simps)
              (auto simp: st_def [symmetric] Let_def errno_defs split: prod.splits)
        next
          case (Failed ex)
          with ok Some t retry g show ?thesis
            by (subst removeImpl.simps)
              (auto simp: st_def [symmetric] Let_def errno_defs kMaxRemoveRetries_def)
        next
          case (Pending n)
          with ok Some t retry g show ?thesis
            by (subst removeImpl.simps)
              (auto simp: st_def [symmetric] Let_def errno_defs kMaxRemoveRetries_def)
        qed
      qed
    qed
  qed
qed

lemma getOrLoadChild_loads:
  assumes e: "pm_find (entries (contents (chain st ! i))) nm = Some ent" "inode ent = None"
    and i: "i < length (chain st)"
    and run: "getOrLoadChild nm i st = (Ready c, s2)"
  shows "\<exists>ent'. pm_find (entries (contents (chain s2 ! i))) nm = Some ent'
             \<and> inode ent' = Some c \<and> loaded s2 c \<noteq> None"
proof -
  define n1 where "n1 = (case inodeNumber ent of Some n \<Rightarrow> n | None \<Rightarrow> nextInodeNumber st)"
  define e1 where "e1 = (case inodeNumber ent of Some n \<Rightarrow> ent
      | None \<Rightarrow> ent\<lparr>inodeNumber := Some (nextInodeNumber st)\<rparr>)"
  define st1 where "st1 = (case inodeNumber ent of Some n \<Rightarrow> st
      | None \<Rightarrow> setEntries i (pm_update nm e1 (entries (contents (chain st ! i))))
                  (st\<lparr>nextInodeNumber := nextInodeNumber st + 1\<rparr>))"
  have pre: "(case inodeNumber ent of
                        Some n \<Rightarrow> (n, ent, st)
                      | None \<Rightarrow>
                          let (n, sta) = allocateInodeNumber st;
                              e1 = ent\<lparr>inodeNumber := Some n\<rparr>
                          in (n, e1,
                              setEntries i (pm_update nm e1 (entries (contents (chain sta ! i)))) sta))
      = (n1, e1, st1)"
    by (simp add: n1_def e1_def st1_def allocateInodeNumber_def Let_def split: option.splits)
  have i1: "i < length (chain st1)" using i by (simp add: st1_def split: option.splits)
  have p1: "pm_find (entries (contents (chain st1 ! i))) nm \<noteq> None"
    using e i by (simp add: st1_def pm_find_update_same split: option.splits)
  define st2 where "st2 = st1\<lparr>loading := loading st1 @ [n1]\<rparr>"
  have i2: "i < length (chain st2)" "chain st2 = chain st1" using i1 by (simp_all add: st2_def)
  from run e pre obtain obj where
    "c = n1" "s2 = inodeLoadComplete n1 obj
       (setEntries i (pm_update nm (e1\<lparr>inode := Some n1\<rparr>) (entries (contents (chain st2 ! i)))) st2)"
    by (auto simp: getOrLoadChild_def shouldLoadChild_def st2_def Let_def
        split: if_splits sum.splits)
  with i2 p1 show ?thesis
    by (simp add: inodeLoadComplete_def pm_find_update_same)
qed

lemma removeImpl_success:
  assumes "asSubclassPtrOrNull wantTree (env attemptNum st) child"
    and "checkPreRemove wantTree (env attemptNum st) child = 0"
    and "getPath i (env attemptNum st) = Some myPath"
    and "tryRemoveChild wantTree nm None (\<not> isFuseRequest (env attemptNum st)) now i
           (env attemptNum st) = (Inr 0, st1)"
  shows "removeImpl wantTree nm child attemptNum env now i st
              = (Ready (), 0, st1\<lparr>journal := journal st1 @ [REMOVED (myPath @ [nm])]\<rparr>)"
  using assms by (subst removeImpl.simps) (auto simp: Let_def)




subsection \<open>Overlay data before the record in the parent\<close>

text \<open>
  Every write to the chain or to the overlay leaves a snapshot in the history of the
  mount, so that the states a crash can leave behind are the snapshots of a run.  The
  lemmas below show, write by write, that each snapshot is consistent: a listing, in
  memory or in the overlay, records an entry as materialized only when the overlay has
  data for its inode number.
\<close>

lemma covered_mono:
  "covered ov d \<Longrightarrow> (\<And>n. ov n \<noteq> None \<Longrightarrow> ov' n \<noteq> None) \<Longrightarrow> covered ov' d"
  unfolding covered_def by blast

lemma covered_serializeDir [simp]: "covered ov (serializeDir d) = covered ov d"
  by (auto simp: covered_def serializeDir_def isMaterializedE_def)

lemma covered_setMaterialized [simp]: "covered ov (setMaterialized d) = covered ov d"
  by (simp add: covered_def setMaterialized_def)

lemma covered_fields [simp]:
  "covered ov (d\<lparr>treeHash := h\<rparr>) = covered ov d"
  "covered ov (d\<lparr>timeStamps := t\<rparr>) = covered ov d"
  by (simp_all add: covered_def)

lemma covered_update:
  assumes "covered ov d"
    and "isMaterializedE e \<Longrightarrow> \<exists>n. inodeNumber e = Some n \<and> ov n \<noteq> None"
  shows "covered ov (d\<lparr>entries := pm_update cn e (entries d)\<rparr>)"
  using assms unfolding covered_def pm_update_def by auto

lemma covered_erase:
  "covered ov d \<Longrightarrow> covered ov (d\<lparr>entries := pm_erase nm (entries d)\<rparr>)"
  unfolding covered_def pm_erase_def by auto

lemma consistent_chain_update:
  assumes "consistent (ch, ov)" "covered ov (contents t)"
  shows "consistent (ch[i := t], ov)"
  using assms unfolding consistent_def
  by (auto dest!: set_update_subset_insert [THEN subsetD])

lemma consistent_overlay_update:
  assumes "consistent (ch, ov)" "covered ov d"
  shows "consistent (ch, ov(n \<mapsto> OverlayDir d))"
proof -
  have g: "covered ov d' \<Longrightarrow> covered (ov(n \<mapsto> OverlayDir d)) d'" for d'
    by (erule covered_mono) simp
  show ?thesis
    using assms unfolding consistent_def
    by (auto intro: g split: if_splits)
qed

lemma stepsConsistent_refl: "stepsConsistent st st"
  by (simp add: stepsConsistent_def)

lemma stepsConsistent_quiet:
  "chain st' = chain st \<Longrightarrow> overlay st' = overlay st \<Longrightarrow> history st' = history st \<Longrightarrow>
   stepsConsistent st st'"
  by (simp add: stepsConsistent_def)

lemma stepsConsistent_trans:
  assumes "stepsConsistent a b" "stepsConsistent b c"
  shows "stepsConsistent a c"
proof -
  from assms(1) obtain hs where hs: "history b = history a @ hs" "\<forall>s\<in>set hs. consistent s"
    "(chain b, overlay b) = last ((chain a, overlay a) # hs)"
    unfolding stepsConsistent_def by blast
  from assms(2) obtain hs' where hs': "history c = history b @ hs'" "\<forall>s\<in>set hs'. consistent s"
    "(chain c, overlay c) = last ((chain b, overlay b) # hs')"
    unfolding stepsConsistent_def by blast
  have "(chain c, overlay c) = last ((chain a, overlay a) # hs @ hs')"
    using hs(3) hs'(3) by (cases "hs' = []") (simp_all add: last_append)
  with hs hs' show ?thesis
    unfolding stepsConsistent_def by (intro exI [of _ "hs @ hs'"]) auto
qed

lemma stepsConsistent_consistent:
  assumes "stepsConsistent st st'" "consistent (chain st, overlay st)"
  shows "consistent (chain st', overlay st')"
proof -
  from assms(1) obtain hs where hs: "\<forall>s\<in>set hs. consistent s"
    "(chain st', overlay st') = last ((chain st, overlay st) # hs)"
    unfolding stepsConsistent_def by blast
  show ?thesis
  proof (cases "hs = []")
    case True
    with hs assms(2) show ?thesis by simp
  next
    case False
    then have "last ((chain st, overlay st) # hs) \<in> set hs" by simp
    with hs show ?thesis by simp
  qed
qed

lemma stepsConsistent_snapshot:
  assumes "consistent (chain st', overlay st')" "history st' = history st"
  shows "stepsConsistent st (snapshot st')"
  using assms unfolding stepsConsistent_def snapshot_def
  by (intro exI [of _ "[(chain st', overlay st')]"]) simp

lemma stepsConsistent_setContents:
  assumes "consistent (chain st, overlay st)" "covered (overlay st) d"
  shows "stepsConsistent st (setContents i d st)"
  unfolding setContents_def
  by (rule stepsConsistent_snapshot)
    (simp_all add: consistent_chain_update [OF assms(1)] assms(2))

lemma stepsConsistent_setEntries_update:
  assumes "consistent (chain st, overlay st)" "i < length (chain st)"
    and "isMaterializedE e \<Longrightarrow> \<exists>n. inodeNumber e = Some n \<and> overlay st n \<noteq> None"
  shows "stepsConsistent st (setEntries i (pm_update cn e (entries (contents (chain st ! i)))) st)"
proof -
  have "covered (overlay st) (contents (chain st ! i))"
    using assms(1,2) unfolding consistent_def by simp
  from covered_update [OF this assms(3)] assms(1) show ?thesis
    unfolding setEntries_def by (intro stepsConsistent_setContents) simp_all
qed

lemma stepsConsistent_setEntries_erase:
  assumes "consistent (chain st, overlay st)" "i < length (chain st)"
  shows "stepsConsistent st (setEntries i (pm_erase nm (entries (contents (chain st ! i)))) st)"
proof -
  have "covered (overlay st) (contents (chain st ! i))"
    using assms(1,2) unfolding consistent_def by simp
  from covered_erase [OF this] assms(1) show ?thesis
    unfolding setEntries_def by (intro stepsConsistent_setContents) simp_all
qed

lemma stepsConsistent_saveOverlayDir:
  assumes "consistent (chain st, overlay st)" "covered (overlay st) d"
  shows "stepsConsistent st (saveOverlayDir n d st)"
  unfolding saveOverlayDir_def
  by (rule stepsConsistent_snapshot)
    (simp_all add: consistent_overlay_update [OF assms(1)] assms(2))

lemma stepsConsistent_setUnlinked:
  assumes "consistent (chain st, overlay st)" "k < length (chain st)"
  shows "stepsConsistent st (setUnlinked k st)"
proof -
  have "covered (overlay st) (contents (chain st ! k))"
    using assms unfolding consistent_def by simp
  then have "consistent ((chain st)[k := (chain st ! k)\<lparr>location_unlinked := True\<rparr>], overlay st)"
    by (intro consistent_chain_update [OF assms(1)]) simp
  then show ?thesis
    unfolding setUnlinked_def by (intro stepsConsistent_snapshot) simp_all
qed

lemma covered_member:
  "consistent (chain st, overlay st) \<Longrightarrow> i < length (chain st) \<Longrightarrow>
   covered (overlay st) (contents (chain st ! i))"
  unfolding consistent_def by simp

lemma stepsConsistent_markChildMaterialized:
  assumes c: "consistent (chain st, overlay st)" and i: "i < length (chain st)"
    and p: "overlay st cid \<noteq> None"
  shows "stepsConsistent st (markChildMaterialized i cn cid e st)"
proof -
  define st1 where "st1 = setEntries i
                  (pm_update cn (setMaterializedE cid e) (entries (contents (chain st ! i)))) st"
  define st2 where "st2 = setContents i (setMaterialized (contents (chain st1 ! i))) st1"
  have s1: "stepsConsistent st st1"
    unfolding st1_def using p
    by (intro stepsConsistent_setEntries_update [OF c i]) (simp add: setMaterializedE_def)
  note c1 = stepsConsistent_consistent [OF s1 c]
  have i1: "i < length (chain st1)" using i by (simp add: st1_def)
  have s2: "stepsConsistent st1 st2"
    unfolding st2_def
    by (intro stepsConsistent_setContents [OF c1]) (simp add: covered_member [OF c1 i1])
  note c2 = stepsConsistent_consistent [OF s2 c1]
  have i2: "i < length (chain st2)" using i1 by (simp add: st2_def)
  have s3: "stepsConsistent st2 (saveOverlayDir (nodeId (chain st2 ! i)) (contents (chain st2 ! i)) st2)"
    by (intro stepsConsistent_saveOverlayDir [OF c2] covered_member [OF c2 i2])
  have "markChildMaterialized i cn cid e st
          = saveOverlayDir (nodeId (chain st2 ! i)) (contents (chain st2 ! i)) st2"
    by (simp only: markChildMaterialized_def Let_def st1_def st2_def)
  with s1 s2 s3 show ?thesis by (metis stepsConsistent_trans)
qed

lemma stepsConsistent_markChildDematerialized:
  assumes c: "consistent (chain st, overlay st)" and i: "i < length (chain st)"
  shows "stepsConsistent st (markChildDematerialized i cn h e st)"
proof -
  define st1 where "st1 = setEntries i
                  (pm_update cn (setDematerializedE h e) (entries (contents (chain st ! i)))) st"
  define st2 where "st2 = setContents i (setMaterialized (contents (chain st1 ! i))) st1"
  have s1: "stepsConsistent st st1"
    unfolding st1_def
    by (intro stepsConsistent_setEntries_update [OF c i])
      (simp add: setDematerializedE_def isMaterializedE_def)
  note c1 = stepsConsistent_consistent [OF s1 c]
  have i1: "i < length (chain st1)" using i by (simp add: st1_def)
  have s2: "stepsConsistent st1 st2"
    unfolding st2_def
    by (intro stepsConsistent_setContents [OF c1]) (simp add: covered_member [OF c1 i1])
  note c2 = stepsConsistent_consistent [OF s2 c1]
  have i2: "i < length (chain st2)" using i1 by (simp add: st2_def)
  have s3: "stepsConsistent st2 (saveOverlayDir (nodeId (chain st2 ! i)) (contents (chain st2 ! i)) st2)"
    by (intro stepsConsistent_saveOverlayDir [OF c2] covered_member [OF c2 i2])
  have "markChildDematerialized i cn h e st
          = saveOverlayDir (nodeId (chain st2 ! i)) (contents (chain st2 ! i)) st2"
    by (simp only: markChildDematerialized_def Let_def st1_def st2_def)
  with s1 s2 s3 show ?thesis by (metis stepsConsistent_trans)
qed

lemma stepsConsistent_childMaterialized:
  assumes "childMaterialized i cn cid st = (r, st')"
  shows "i < length (chain st) \<longrightarrow> consistent (chain st, overlay st) \<longrightarrow>
     overlay st cid \<noteq> None \<longrightarrow> stepsConsistent st st'"
  using assms
proof (induction rule: childMaterialized_induct_rule)
  case (up i cn cid st e r st')
  show ?case
  proof (intro impI)
    assume i: "i < length (chain st)" and c: "consistent (chain st, overlay st)"
      and p: "overlay st cid \<noteq> None"
    note s = stepsConsistent_markChildMaterialized [OF c i p, of cn e]
    note c' = stepsConsistent_consistent [OF s c]
    have "overlay (markChildMaterialized i cn cid e st) (nodeId (chain st ! i)) \<noteq> None"
      using i by (simp add: markChildMaterialized_overlay)
    with up(6) up(3) c' have "stepsConsistent (markChildMaterialized i cn cid e st) st'" by simp
    with s show "stepsConsistent st st'" by (rule stepsConsistent_trans)
  qed
qed (simp_all add: stepsConsistent_refl stepsConsistent_markChildMaterialized)

lemma stepsConsistent_materialize:
  assumes i: "i < length (chain st)" and c: "consistent (chain st, overlay st)"
  shows "stepsConsistent st (snd (materialize h i st))"
proof (cases "isMaterialized (contents (chain st ! i))")
  case True
  then show ?thesis by (simp add: materialize_unfold [OF i] stepsConsistent_refl)
next
  case False
  define st1 where "st1 = setContents i (setMaterialized (contents (chain st ! i))) st"
  define st2 where "st2 = saveOverlayDir (nodeId (chain st ! i))
      (setMaterialized (contents (chain st ! i))) st1"
  have s1: "stepsConsistent st st1"
    unfolding st1_def
    by (intro stepsConsistent_setContents [OF c]) (simp add: covered_member [OF c i])
  note c1 = stepsConsistent_consistent [OF s1 c]
  have s2: "stepsConsistent st1 st2"
    unfolding st2_def
    by (intro stepsConsistent_saveOverlayDir [OF c1])
      (simp add: st1_def covered_member [OF c i])
  note c2 = stepsConsistent_consistent [OF s2 c1]
  have s12: "stepsConsistent st st2" using s1 s2 by (rule stepsConsistent_trans)
  show ?thesis
  proof (cases "Suc i < length (chain st) \<and> \<not> location_unlinked (chain st ! i)")
    case up: True
    obtain r st' where run: "childMaterialized (Suc i) (location_name (chain st ! i))
        (nodeId (chain st ! i)) st2 = (r, st')"
      by (cases "childMaterialized (Suc i) (location_name (chain st ! i)) (nodeId (chain st ! i)) st2")
        auto
    have "overlay st2 (nodeId (chain st ! i)) \<noteq> None" by (simp add: st2_def)
    with stepsConsistent_childMaterialized [OF run] up c2
    have "stepsConsistent st2 st'" by (simp add: st2_def st1_def)
    with s12 have "stepsConsistent st st'" by (rule stepsConsistent_trans)
    with False up run show ?thesis
      by (simp add: materialize_unfold [OF i] st2_def st1_def)
  next
    case stop: False
    have "materialize h i st = (None, st2)"
      unfolding st2_def st1_def
      by (subst materialize_unfold [OF i]) (simp only: False stop if_False)
    with s12 show ?thesis by simp
  qed
qed

lemma chainIndex_less: "chainIndex st c = Some k \<Longrightarrow> k < length (chain st)"
proof -
  have "n \<in> set (map nodeId ch) \<Longrightarrow> length (takeWhile (\<lambda>t. nodeId t \<noteq> n) ch) < length ch"
    for n and ch :: "TreeInode list"
    by (induction ch) auto
  then show "chainIndex st c = Some k \<Longrightarrow> k < length (chain st)"
    by (auto simp: chainIndex_def split: if_splits)
qed

lemma setUnlinked_frame [simp]:
  "length (chain (setUnlinked k st)) = length (chain st)"
  "overlay (setUnlinked k st) = overlay st"
  "contents (chain (setUnlinked k st) ! j) = contents (chain st ! j)"
  "nodeId (chain (setUnlinked k st) ! j) = nodeId (chain st ! j)"
  by (simp_all add: setUnlinked_def snapshot_def
      nth_list_update_same [where f = contents] nth_list_update_same [where f = nodeId])

lemma markUnlinked_frame [simp]:
  "length (chain (markUnlinked c st)) = length (chain st)"
  "overlay (markUnlinked c st) = overlay st"
  "contents (chain (markUnlinked c st) ! j) = contents (chain st ! j)"
  "nodeId (chain (markUnlinked c st) ! j) = nodeId (chain st ! j)"
  by (simp_all add: markUnlinked_def split: option.splits)

lemma stepsConsistent_markUnlinked:
  assumes "consistent (chain st, overlay st)"
  shows "stepsConsistent st (markUnlinked c st)"
proof (cases "chainIndex st c")
  case None
  then show ?thesis
    by (auto simp: markUnlinked_def intro!: stepsConsistent_quiet split: option.splits)
next
  case (Some k)
  with stepsConsistent_setUnlinked [OF assms chainIndex_less [OF Some]] show ?thesis
    by (simp add: markUnlinked_def)
qed

lemma stepsConsistent_removeEntrySteps:
  assumes c: "consistent (chain st, overlay st)" and i: "i < length (chain st)"
  shows "stepsConsistent st (removeEntrySteps c0 nm fl now i st)"
proof -
  define st2 where "st2 = markUnlinked c0 st"
  define st3 where "st3 = setEntries i (pm_erase nm (entries (contents (chain st2 ! i)))) st2"
  define st4 where "st4 = setContents i
                  ((contents (chain st3 ! i))
                     \<lparr>timeStamps := (timeStamps (contents (chain st3 ! i)))
                        \<lparr>mtime := now, ctime := now\<rparr>\<rparr>) st3"
  define st5 where "st5 = saveOverlayDir (nodeId (chain st4 ! i)) (contents (chain st4 ! i)) st4"
  have s2: "stepsConsistent st st2" unfolding st2_def by (rule stepsConsistent_markUnlinked [OF c])
  note c2 = stepsConsistent_consistent [OF s2 c]
  have i2: "i < length (chain st2)" using i by (simp add: st2_def)
  have s3: "stepsConsistent st2 st3"
    unfolding st3_def by (rule stepsConsistent_setEntries_erase [OF c2 i2])
  note c3 = stepsConsistent_consistent [OF s3 c2]
  have i3: "i < length (chain st3)" using i2 by (simp add: st3_def)
  have s4: "stepsConsistent st3 st4"
    unfolding st4_def
    by (intro stepsConsistent_setContents [OF c3]) (simp add: covered_member [OF c3 i3])
  note c4 = stepsConsistent_consistent [OF s4 c3]
  have i4: "i < length (chain st4)" using i3 by (simp add: st4_def)
  have s5: "stepsConsistent st4 st5"
    unfolding st5_def by (intro stepsConsistent_saveOverlayDir [OF c4] covered_member [OF c4 i4])
  have s6: "stepsConsistent st5 (if fl then invalidateFuseCache i nm st5 else st5)"
    by (auto simp: invalidateFuseCache_def intro!: stepsConsistent_quiet)
  have "removeEntrySteps c0 nm fl now i st = (if fl then invalidateFuseCache i nm st5 else st5)"
    unfolding removeEntrySteps_def Let_def st2_def st3_def st4_def st5_def by (rule refl)
  moreover note stepsConsistent_trans [OF stepsConsistent_trans [OF stepsConsistent_trans
    [OF stepsConsistent_trans [OF s2 s3] s4] s5] s6]
  ultimately show ?thesis by simp
qed

lemma tryRemoveChild_unfold:
  "tryRemoveChild wantTree nm child flushKernelCache now i st =
     (case materialize True i st of
        (Some ex, st1) \<Rightarrow> (Inl ex, st1)
      | (None, st1) \<Rightarrow>
          if nodeId (chain st1 ! i) = dotEdenInodeNumber st1 then (Inr EPERM, st1)
          else
            (case pm_find (entries (contents (chain st1 ! i))) nm of
               None \<Rightarrow> (Inr ENOENT, st1)
             | Some ent \<Rightarrow>
                 (case inode ent of
                    None \<Rightarrow> (Inr EBADF, st1)
                  | Some entInode \<Rightarrow>
                      (case (case child of
                               Some c \<Rightarrow> if entInode \<noteq> c then Inl EBADF else Inr c
                             | None \<Rightarrow>
                                 if asSubclassPtrOrNull wantTree st1 entInode then Inr entInode
                                 else Inl (WRONG_TYPE_ERRNO wantTree)) of
                         Inl err \<Rightarrow> (Inr err, st1)
                       | Inr c \<Rightarrow>
                           if checkPreRemove wantTree st1 c \<noteq> 0
                           then (Inr (checkPreRemove wantTree st1 c), st1)
                           else (Inr 0, removeEntrySteps c nm flushKernelCache now i st1)))))"
  unfolding tryRemoveChild_def removeEntrySteps_def Let_def
  by (rule refl)

lemma tryRemoveChild_result:
  assumes "materialize True i st = (r0, sa)"
  shows "snd (tryRemoveChild w nm child fl now i st) = sa
     \<or> (\<exists>c. tryRemoveChild w nm child fl now i st = (Inr 0, removeEntrySteps c nm fl now i sa))"
  unfolding tryRemoveChild_unfold assms
  by (simp split: option.split sum.split) blast

lemma tryRemoveChild_failure:
  assumes "materialize True i st = (r0, sa)" "fst (tryRemoveChild w nm child fl now i st) \<noteq> Inr 0"
  shows "snd (tryRemoveChild w nm child fl now i st) = sa"
  using tryRemoveChild_result [OF assms(1), of w nm child fl now] assms(2) by auto

lemma stepsConsistent_tryRemoveChild:
  assumes i: "i < length (chain st)" and c: "consistent (chain st, overlay st)"
  shows "stepsConsistent st (snd (tryRemoveChild w nm child fl now i st))"
proof -
  obtain r0 sa where m: "materialize True i st = (r0, sa)"
    by (cases "materialize True i st") auto
  from stepsConsistent_materialize [OF i c, of True] m have s: "stepsConsistent st sa" by simp
  note ca = stepsConsistent_consistent [OF s c]
  from materialize_frame [OF m] i have ia: "i < length (chain sa)" by simp
  from tryRemoveChild_result [OF m, of w nm child fl now]
  show ?thesis
  proof
    assume "snd (tryRemoveChild w nm child fl now i st) = sa"
    with s show ?thesis by simp
  next
    assume "\<exists>c. tryRemoveChild w nm child fl now i st = (Inr 0, removeEntrySteps c nm fl now i sa)"
    then obtain c0 where "tryRemoveChild w nm child fl now i st
        = (Inr 0, removeEntrySteps c0 nm fl now i sa)" by blast
    with stepsConsistent_trans [OF s stepsConsistent_removeEntrySteps [OF ca ia, of c0 nm fl now]]
    show ?thesis by simp
  qed
qed

lemma childMaterialized_overlay_grows:
  assumes "childMaterialized i cn cid st = (r, st')"
  shows "overlay st n \<noteq> None \<longrightarrow> overlay st' n \<noteq> None"
  using assms
  by (induction rule: childMaterialized_induct_rule)
    (simp_all add: markChildMaterialized_def Let_def)

lemma materialize_overlay_grows:
  assumes "materialize h i st = (r, st')" "overlay st n \<noteq> None"
  shows "overlay st' n \<noteq> None"
proof -
  define st0 where "st0 = setContents i (setMaterialized (contents (chain st ! i))) st"
  have o1: "overlay (saveOverlayDir x d st0) n \<noteq> None" for x d
    using assms(2) by (simp add: st0_def setContents_frame)
  have "st' = st \<or> (\<exists>x d. st' = saveOverlayDir x d st0
      \<or> (\<exists>j cn cid. childMaterialized j cn cid (saveOverlayDir x d st0) = (r, st')))"
    using assms(1) unfolding st0_def
    by (simp add: materialize_def Let_def split: if_splits) blast+
  with o1 assms(2) childMaterialized_overlay_grows show ?thesis by blast
qed

lemma noRef_fields [simp]:
  "noRef X (d\<lparr>treeHash := h\<rparr>) = noRef X d"
  "noRef X (d\<lparr>timeStamps := t\<rparr>) = noRef X d"
  "noRef X (setMaterialized d) = noRef X d"
  "noRef X (serializeDir d) = noRef X d"
  by (auto simp: noRef_def setMaterialized_def serializeDir_def isMaterializedE_def)

lemma noRef_update:
  assumes "\<forall>p\<in>set (entries d). isMaterializedE (snd p) \<and> inodeNumber (snd p) = Some X
             \<longrightarrow> fst p = cn"
    and "isMaterializedE e \<longrightarrow> inodeNumber e \<noteq> Some X"
  shows "noRef X (d\<lparr>entries := pm_update cn e (entries d)\<rparr>)"
  using assms unfolding noRef_def pm_update_def by auto

lemma markChildDematerialized_frame [simp]:
  "locations (markChildDematerialized i cn h e st) = locations st"
  "outsideChain (markChildDematerialized i cn h e st) = outsideChain st"
  "length (chain (markChildDematerialized i cn h e st)) = length (chain st)"
  "k \<noteq> i \<Longrightarrow> chain (markChildDematerialized i cn h e st) ! k = chain st ! k"
  "nodeId (chain (markChildDematerialized i cn h e st) ! k) = nodeId (chain st ! k)"
  "location_name (chain (markChildDematerialized i cn h e st) ! k) = location_name (chain st ! k)"
  "location_unlinked (chain (markChildDematerialized i cn h e st) ! k)
     = location_unlinked (chain st ! k)"
  by (simp_all add: markChildDematerialized_def Let_def)

lemma markChildDematerialized_contents:
  "i < length (chain st) \<Longrightarrow>
   contents (chain (markChildDematerialized i cn h e st) ! i)
     = setMaterialized ((contents (chain st ! i))
         \<lparr>entries := pm_update cn (setDematerializedE h e) (entries (contents (chain st ! i)))\<rparr>)"
  by (simp add: markChildDematerialized_def Let_def)

lemma markChildDematerialized_overlay:
  "i < length (chain st) \<Longrightarrow>
   overlay (markChildDematerialized i cn h e st)
     = (overlay st)(nodeId (chain st ! i) \<mapsto>
          OverlayDir (serializeDir (contents (chain (markChildDematerialized i cn h e st) ! i))))"
  by (simp add: markChildDematerialized_def Let_def)

lemma unreferenced_markChildMaterialized:
  assumes u: "unreferenced X st" and i: "i < length (chain st)" and x: "cid \<noteq> X"
  shows "unreferenced X (markChildMaterialized i cn cid e st)"
proof -
  have a: "noRef X (contents (chain st ! i))" using u i by (simp add: unreferenced_def)
  have b: "noRef X (contents (chain (markChildMaterialized i cn cid e st) ! i))"
    unfolding markChildMaterialized_contents [OF i] noRef_fields
    using a x by (intro noRef_update) (auto simp: noRef_def setMaterializedE_def)
  have "noRef X (contents (chain (markChildMaterialized i cn cid e st) ! k))"
    if "k < length (chain st)" for k
    using that u b by (cases "k = i") (simp_all add: unreferenced_def)
  with u b show ?thesis
    by (simp add: unreferenced_def markChildMaterialized_overlay [OF i])
qed

lemma unreferenced_childMaterialized:
  assumes "childMaterialized j cn cid st = (r, st')"
  shows "j < length (chain st) \<longrightarrow> unreferenced X st \<longrightarrow> cid \<noteq> X \<longrightarrow>
     (\<forall>k<length (chain st). j \<le> k \<longrightarrow> nodeId (chain st ! k) \<noteq> X) \<longrightarrow> unreferenced X st'"
  using assms
proof (induction rule: childMaterialized_induct_rule)
  case (up i cn cid st e r st')
  show ?case
  proof (intro impI)
    assume i: "i < length (chain st)" and u: "unreferenced X st" and x: "cid \<noteq> X"
      and n: "\<forall>k<length (chain st). i \<le> k \<longrightarrow> nodeId (chain st ! k) \<noteq> X"
    note u' = unreferenced_markChildMaterialized [OF u i x, of cn e]
    from n i have "nodeId (chain st ! i) \<noteq> X" by simp
    with up(6) up(3) u' n show "unreferenced X st'" by simp
  qed
qed (simp_all add: unreferenced_markChildMaterialized)

lemma covered_remove:
  "covered ov d \<Longrightarrow> noRef X d \<Longrightarrow> covered (ov(X := None)) d"
  unfolding covered_def noRef_def by fastforce

lemma stepsConsistent_removeOverlayData:
  assumes c: "consistent (chain st, overlay st)" and u: "unreferenced X st"
  shows "stepsConsistent st (removeOverlayData X st)"
proof -
  have "noRef X (contents t)" if "t \<in> set (chain st)" for t
    using that u by (auto simp: unreferenced_def in_set_conv_nth)
  with c u have "consistent (chain st, (overlay st)(X := None))"
    unfolding consistent_def unreferenced_def
    by (auto intro!: covered_remove split: if_splits)
  then show ?thesis
    unfolding removeOverlayData_def by (intro stepsConsistent_snapshot) simp_all
qed

lemma childDematerialized_unfold:
  "childDematerialized i cn h st =
     (case pm_find (entries (contents (chain st ! i))) cn of
        None \<Rightarrow> (Some (EdenBug ''error attempting to dematerialize: entry not present''), st)
      | Some e \<Rightarrow>
          if \<not> isMaterializedE e \<and> hash e = Some h then (None, st)
          else if Suc i < length (chain st) \<and> \<not> location_unlinked (chain st ! i)
          then childMaterialized (Suc i) (location_name (chain st ! i)) (nodeId (chain st ! i))
                 (markChildDematerialized i cn h e st)
          else (None, markChildDematerialized i cn h e st))"
proof -
  have a: "Suc i < length (chain (markChildDematerialized i cn h e st))
        \<and> \<not> location_unlinked (chain (markChildDematerialized i cn h e st) ! i)
      \<longleftrightarrow> Suc i < length (chain st) \<and> \<not> location_unlinked (chain st ! i)" for e
    by simp
  have b: "childDematerialized i cn h st =
     (case pm_find (entries (contents (chain st ! i))) cn of
        None \<Rightarrow> (Some (EdenBug ''error attempting to dematerialize: entry not present''), st)
      | Some e \<Rightarrow>
          if \<not> isMaterializedE e \<and> hash e = Some h then (None, st)
          else if Suc i < length (chain (markChildDematerialized i cn h e st))
                  \<and> \<not> location_unlinked (chain (markChildDematerialized i cn h e st) ! i)
          then childMaterialized (Suc i)
                 (location_name (chain (markChildDematerialized i cn h e st) ! i))
                 (nodeId (chain (markChildDematerialized i cn h e st) ! i))
                 (markChildDematerialized i cn h e st)
          else (None, markChildDematerialized i cn h e st))"
    unfolding markChildDematerialized_def Let_def
    by (rule childDematerialized_def [unfolded Let_def])
  show ?thesis
    by (subst b) (simp only: a markChildDematerialized_frame)
qed

lemma unreferenced_markChildDematerialized:
  assumes j: "j < length (chain st)"
    and others: "\<forall>k<length (chain st). k \<noteq> j \<longrightarrow> noRef X (contents (chain st ! k))"
    and named: "\<forall>p\<in>set (entries (contents (chain st ! j))).
        isMaterializedE (snd p) \<and> inodeNumber (snd p) = Some X \<longrightarrow> fst p = nm"
    and disk: "\<forall>n d. overlay st n = Some (OverlayDir d) \<and> \<not> noRef X d
        \<longrightarrow> n = nodeId (chain st ! j)"
  shows "unreferenced X (markChildDematerialized j nm h e st)"
proof -
  have b: "noRef X (contents (chain (markChildDematerialized j nm h e st) ! j))"
    unfolding markChildDematerialized_contents [OF j] noRef_fields
    using named by (intro noRef_update) (auto simp: setDematerializedE_def isMaterializedE_def)
  have "noRef X (contents (chain (markChildDematerialized j nm h e st) ! k))"
    if "k < length (chain st)" for k
    using that others b by (cases "k = j") simp_all
  with disk b show ?thesis
    by (auto simp: unreferenced_def markChildDematerialized_overlay [OF j])
qed

lemma unreferenced_entry_clean:
  assumes j: "j < length (chain st)"
    and others: "\<forall>k<length (chain st). k \<noteq> j \<longrightarrow> noRef X (contents (chain st ! k))"
    and named: "\<forall>p\<in>set (entries (contents (chain st ! j))).
        isMaterializedE (snd p) \<and> inodeNumber (snd p) = Some X
          \<longrightarrow> fst p = nm \<and> pm_find (entries (contents (chain st ! j))) nm = Some (snd p)"
    and disk: "\<forall>n d. overlay st n = Some (OverlayDir d) \<and> \<not> noRef X d
        \<longrightarrow> n = nodeId (chain st ! j)
            \<and> (\<exists>e. pm_find (entries (contents (chain st ! j))) nm = Some e \<and> isMaterializedE e)"
    and clean: "\<forall>e. pm_find (entries (contents (chain st ! j))) nm = Some e
        \<longrightarrow> \<not> isMaterializedE e"
  shows "unreferenced X st"
proof -
  have b: "noRef X (contents (chain st ! j))"
    unfolding noRef_def using named clean by blast
  have "noRef X (contents (chain st ! k))" if "k < length (chain st)" for k
    using that others b by (cases "k = j") simp_all
  moreover have "noRef X d" if "overlay st n = Some (OverlayDir d)" for n d
    using that disk clean by blast
  ultimately show ?thesis by (simp add: unreferenced_def)
qed

lemma childDematerialized_run:
  assumes run: "childDematerialized j nm h st = (r, st')"
    and j: "j < length (chain st)" and c: "consistent (chain st, overlay st)"
  shows "stepsConsistent st st' \<and> length (chain st') = length (chain st)
    \<and> (\<forall>k<j. chain st' ! k = chain st ! k)
    \<and> ((\<forall>k<length (chain st). k \<noteq> j \<longrightarrow> noRef X (contents (chain st ! k)))
       \<and> (\<forall>k<length (chain st). j \<le> k \<longrightarrow> nodeId (chain st ! k) \<noteq> X)
       \<and> (\<forall>p\<in>set (entries (contents (chain st ! j))).
            isMaterializedE (snd p) \<and> inodeNumber (snd p) = Some X
              \<longrightarrow> fst p = nm \<and> pm_find (entries (contents (chain st ! j))) nm = Some (snd p))
       \<and> (\<forall>n d. overlay st n = Some (OverlayDir d) \<and> \<not> noRef X d
            \<longrightarrow> n = nodeId (chain st ! j)
                \<and> (\<exists>e. pm_find (entries (contents (chain st ! j))) nm = Some e
                       \<and> isMaterializedE e))
       \<longrightarrow> unreferenced X st')"
    (is "_ \<and> _ \<and> _ \<and> (?others \<and> ?above \<and> ?named \<and> ?disk \<longrightarrow> _)")
proof -
  define sD where "sD e = markChildDematerialized j nm h e st" for e
  consider (same) "st' = st"
      "\<forall>e. pm_find (entries (contents (chain st ! j))) nm = Some e \<longrightarrow> \<not> isMaterializedE e"
    | (stop) e where "st' = sD e"
    | (up) e where "Suc j < length (chain st)"
        "childMaterialized (Suc j) (location_name (chain st ! j)) (nodeId (chain st ! j)) (sD e)
           = (r, st')"
  proof (cases "pm_find (entries (contents (chain st ! j))) nm")
    case None
    with run have "st' = st" by (simp add: childDematerialized_unfold)
    with None same show ?thesis by simp
  next
    case (Some e)
    show ?thesis
    proof (cases "\<not> isMaterializedE e \<and> hash e = Some h")
      case True
      with run Some have "st' = st" by (simp add: childDematerialized_unfold)
      with True Some same show ?thesis by simp
    next
      case False
      show ?thesis
      proof (cases "Suc j < length (chain st) \<and> \<not> location_unlinked (chain st ! j)")
        case True
        with run Some False
        have "childMaterialized (Suc j) (location_name (chain st ! j)) (nodeId (chain st ! j))
            (sD e) = (r, st')"
          unfolding sD_def childDematerialized_unfold by simp
        with True up show ?thesis by blast
      next
        case n: False
        with run Some False have "st' = sD e"
          unfolding sD_def childDematerialized_unfold by auto
        with stop show ?thesis by blast
      qed
    qed
  qed
  then show ?thesis
  proof cases
    case same
    have "?others \<and> ?named \<and> ?disk \<longrightarrow> unreferenced X st"
      using j same(2) by (intro impI unreferenced_entry_clean [of j st X nm]) blast+
    with same(1) show ?thesis
      by (simp add: stepsConsistent_refl)
  next
    case (stop e)
    have "?others \<and> ?named \<and> ?disk \<longrightarrow> unreferenced X (sD e)"
      unfolding sD_def using j by (intro impI unreferenced_markChildDematerialized) blast+
    moreover have "stepsConsistent st (sD e)"
      unfolding sD_def by (rule stepsConsistent_markChildDematerialized [OF c j])
    moreover have "length (chain (sD e)) = length (chain st)"
      "\<forall>k<j. chain (sD e) ! k = chain st ! k"
      by (simp_all add: sD_def)
    ultimately show ?thesis unfolding stop by blast
  next
    case (up e)
    have s: "stepsConsistent st (sD e)"
      unfolding sD_def by (rule stepsConsistent_markChildDematerialized [OF c j])
    note cD = stepsConsistent_consistent [OF s c]
    have l: "Suc j < length (chain (sD e))" using up(1) by (simp add: sD_def)
    have o: "overlay (sD e) (nodeId (chain st ! j)) \<noteq> None"
      by (simp add: sD_def markChildDematerialized_overlay [OF j])
    from stepsConsistent_childMaterialized [OF up(2)] l cD o
    have s': "stepsConsistent (sD e) st'" by simp
    note f = childMaterialized_frame [OF up(2)]
    have k: "\<forall>k<j. chain st' ! k = chain st ! k"
      using f by (simp add: sD_def)
    have len: "length (chain st') = length (chain st)"
      using f by (simp add: sD_def)
    have u: "unreferenced X st'" if "?others" "?above" "?named" "?disk"
    proof -
      have "unreferenced X (sD e)"
        unfolding sD_def using j that(1,3,4)
        by (intro unreferenced_markChildDematerialized) blast+
      moreover have "nodeId (chain st ! j) \<noteq> X" using that(2) j by simp
      moreover have "\<forall>k<length (chain (sD e)). Suc j \<le> k \<longrightarrow> nodeId (chain (sD e) ! k) \<noteq> X"
        using that(2) by (simp add: sD_def)
      ultimately show ?thesis
        using unreferenced_childMaterialized [OF up(2), of X] l by simp
    qed
    from stepsConsistent_trans [OF s s'] len k u show ?thesis by blast
  qed
qed

lemma checkoutTryRemoveEmptyDir_steps:
  assumes c: "consistent (chain st, overlay st)"
  shows "stepsConsistent st (snd (checkoutTryRemoveEmptyDir now i st))"
proof (cases "Suc i < length (chain st)")
  case False
  then show ?thesis by (simp add: checkoutTryRemoveEmptyDir_def stepsConsistent_refl)
next
  case True
  obtain q s' where q: "tryRemoveChild True (location_name (chain st ! i))
      (Some (nodeId (chain st ! i))) True now (Suc i) st = (q, s')"
    by (cases "tryRemoveChild True (location_name (chain st ! i))
      (Some (nodeId (chain st ! i))) True now (Suc i) st") auto
  from stepsConsistent_tryRemoveChild [OF True c, of True "location_name (chain st ! i)"
      "Some (nodeId (chain st ! i))" True now] q
  have "stepsConsistent st s'" by simp
  with True q show ?thesis
    by (cases q) (simp_all add: checkoutTryRemoveEmptyDir_def)
qed

lemma checkoutTryRemoveEmptyDir_failure:
  assumes "checkoutTryRemoveEmptyDir now i st = (Inr False, st')"
  shows "st' = st \<or> (\<exists>r0. materialize True (Suc i) st = (r0, st'))"
proof (cases "Suc i < length (chain st)")
  case False
  with assms show ?thesis by (simp add: checkoutTryRemoveEmptyDir_def)
next
  case True
  obtain q s' where q: "tryRemoveChild True (location_name (chain st ! i))
      (Some (nodeId (chain st ! i))) True now (Suc i) st = (q, s')"
    by (cases "tryRemoveChild True (location_name (chain st ! i))
      (Some (nodeId (chain st ! i))) True now (Suc i) st") auto
  obtain r0 sa where m: "materialize True (Suc i) st = (r0, sa)"
    by (cases "materialize True (Suc i) st") auto
  from assms True q have "q \<noteq> Inr 0" "s' = st'"
    by (cases q; simp add: checkoutTryRemoveEmptyDir_def)+
  with tryRemoveChild_failure [OF m, of True "location_name (chain st ! i)"
      "Some (nodeId (chain st ! i))" True now] q m
  show ?thesis by simp
qed

lemma saveOverlayPostCheckout_unfold:
  assumes "\<not> isDryRun ctx"
    and "st1 = setContents i ((contents (chain st ! i))
              \<lparr>treeHash := tryToDematerialize tree (contents (chain st ! i))\<rparr>) st"
    and "st2 = (if isMaterialized (contents (chain st1 ! i))
                then saveOverlayDir (nodeId (chain st1 ! i)) (contents (chain st1 ! i)) st1
                else st1)"
    and "(if tree = None \<and> entries (contents (chain st ! i)) = []
          then checkoutTryRemoveEmptyDir now i st2 else (Inr False, st2)) = (r3, st3)"
  shows "saveOverlayPostCheckout ctx tree now i st =
     (case r3 of
        Inl ex \<Rightarrow> (Some ex, st3)
      | Inr b \<Rightarrow>
          (case b of
             True \<Rightarrow> (None, st3)
           | False \<Rightarrow>
               if treeHash (contents (chain st ! i)) \<noteq> treeHash (contents (chain st1 ! i))
               then
                 (case (if Suc i < length (chain st3) \<and> \<not> location_unlinked (chain st3 ! i)
                        then (if isMaterialized (contents (chain st1 ! i))
                              then childMaterialized (Suc i) (location_name (chain st3 ! i))
                                     (nodeId (chain st3 ! i)) st3
                              else (case tree of
                                      Some t \<Rightarrow>
                                        childDematerialized (Suc i) (location_name (chain st3 ! i))
                                          (tree_hash t) st3
                                    | None \<Rightarrow> (None, st3)))
                        else (None, st3)) of
                    (Some ex, st4) \<Rightarrow> (Some ex, st4)
                  | (None, st4) \<Rightarrow>
                      (None,
                       if \<not> isMaterialized (contents (chain st1 ! i))
                       then removeOverlayData (nodeId (chain st4 ! i)) st4
                       else st4))
               else (None, st3)))"
  using assms(1,4) unfolding assms(2,3) saveOverlayPostCheckout_def Let_def
  by simp

lemma tryToDematerialize_Some:
  "tryToDematerialize tree d = Some hh \<Longrightarrow> \<exists>t. tree = Some t \<and> tree_hash t = hh"
  by (auto simp: tryToDematerialize_def split: option.splits if_splits)

lemma stepsConsistent_saveOverlayPostCheckout:
  assumes i: "i < length (chain st)" and c: "consistent (chain st, overlay st)"
    and o: "onlyParentRefers i st"
  shows "stepsConsistent st (snd (saveOverlayPostCheckout ctx tree now i st))"
proof (cases "isDryRun ctx")
  case True
  then show ?thesis by (simp add: saveOverlayPostCheckout_def stepsConsistent_refl)
next
  case nd: False
  define X where "X = nodeId (chain st ! i)"
  define nm where "nm = location_name (chain st ! i)"
  define h' where "h' = tryToDematerialize tree (contents (chain st ! i))"
  define st1 where "st1 = setContents i ((contents (chain st ! i))
              \<lparr>treeHash := tryToDematerialize tree (contents (chain st ! i))\<rparr>) st"
  define st2 where "st2 = (if isMaterialized (contents (chain st1 ! i))
                then saveOverlayDir (nodeId (chain st1 ! i)) (contents (chain st1 ! i)) st1
                else st1)"
  obtain r3 st3 where r3: "(if tree = None \<and> entries (contents (chain st ! i)) = []
          then checkoutTryRemoveEmptyDir now i st2 else (Inr False, st2)) = (r3, st3)"
    by (cases "if tree = None \<and> entries (contents (chain st ! i)) = []
          then checkoutTryRemoveEmptyDir now i st2 else (Inr False, st2)") auto
  note unf = saveOverlayPostCheckout_unfold [OF nd st1_def st2_def r3]
  have s1: "stepsConsistent st st1"
    unfolding st1_def
    by (intro stepsConsistent_setContents [OF c]) (simp add: covered_member [OF c i])
  note c1 = stepsConsistent_consistent [OF s1 c]
  have c1i: "contents (chain st1 ! i) = (contents (chain st ! i))\<lparr>treeHash := h'\<rparr>"
    using i by (simp add: st1_def h'_def)
  have n1: "nodeId (chain st1 ! k) = nodeId (chain st ! k)"
    "location_name (chain st1 ! k) = location_name (chain st ! k)"
    "location_unlinked (chain st1 ! k) = location_unlinked (chain st ! k)" for k
    by (simp_all add: st1_def)
  have l1: "length (chain st1) = length (chain st)" by (simp add: st1_def)
  have k1: "k \<noteq> i \<Longrightarrow> chain st1 ! k = chain st ! k" for k by (simp add: st1_def)
  have ov1: "overlay st1 = overlay st" by (simp add: st1_def)
  have t1: "treeHash (contents (chain st1 ! i)) = h'" by (simp add: c1i)
  show ?thesis
  proof (cases "h' = None")
    case True
    have m: "isMaterialized (contents (chain st1 ! i))"
      by (simp add: c1i True isMaterialized_def)
    have st2: "st2 = saveOverlayDir X (contents (chain st1 ! i)) st1"
      by (simp add: st2_def m n1 X_def)
    have s2: "stepsConsistent st1 st2"
      unfolding st2
      by (intro stepsConsistent_saveOverlayDir [OF c1] covered_member [OF c1]) (simp add: l1 i)
    note c2 = stepsConsistent_consistent [OF s2 c1]
    have o2: "overlay st2 X \<noteq> None" by (simp add: st2)
    have i2: "i < length (chain st2)" "nodeId (chain st2 ! i) = X"
      using i by (simp_all add: st2 l1 n1 X_def)
    have s3: "stepsConsistent st2 st3"
      using r3 checkoutTryRemoveEmptyDir_steps [OF c2, of now i]
      by (auto simp: stepsConsistent_refl split: if_splits)
    note c3 = stepsConsistent_consistent [OF s3 c2]
    note s13 = stepsConsistent_trans [OF stepsConsistent_trans [OF s1 s2] s3]
    define P where "P \<longleftrightarrow> r3 = Inr False \<and> treeHash (contents (chain st ! i)) \<noteq> h'
        \<and> Suc i < length (chain st3) \<and> \<not> location_unlinked (chain st3 ! i)"
    show ?thesis
    proof (cases P)
      case False
      then have "snd (saveOverlayPostCheckout ctx tree now i st) = st3"
        unfolding unf P_def t1 using m
        by (cases r3) (auto split: bool.splits)
      with s13 show ?thesis by simp
    next
      case True
      then have p: "r3 = Inr False" "treeHash (contents (chain st ! i)) \<noteq> h'"
        "Suc i < length (chain st3)" "\<not> location_unlinked (chain st3 ! i)"
        by (simp_all add: P_def)
      obtain q st4 where q: "childMaterialized (Suc i) (location_name (chain st3 ! i))
          (nodeId (chain st3 ! i)) st3 = (q, st4)"
        by (cases "childMaterialized (Suc i) (location_name (chain st3 ! i))
          (nodeId (chain st3 ! i)) st3") auto
      have res: "snd (saveOverlayPostCheckout ctx tree now i st) = st4"
        unfolding unf t1 using p m q by (cases q) simp_all
      from r3 p(1) have "st3 = st2 \<or> (\<exists>r0. materialize True (Suc i) st2 = (r0, st3))"
        using checkoutTryRemoveEmptyDir_failure [of now i st2 st3]
        by (auto split: if_splits)
      then have "overlay st3 X \<noteq> None \<and> nodeId (chain st3 ! i) = X"
      proof
        assume "st3 = st2"
        with o2 i2 show ?thesis by simp
      next
        assume "\<exists>r0. materialize True (Suc i) st2 = (r0, st3)"
        then obtain r0 where r0: "materialize True (Suc i) st2 = (r0, st3)" by blast
        from materialize_overlay_grows [OF r0 o2] materialize_frame [OF r0]
          locations_nth(1) [of st3 st2 i] i2
        show ?thesis by simp
      qed
      with stepsConsistent_childMaterialized [OF q] p(3) c3
      have "stepsConsistent st3 st4" by simp
      with s13 res show ?thesis by (simp add: stepsConsistent_trans)
    qed
  next
    case False
    then obtain hh where hh: "h' = Some hh" by auto
    with tryToDematerialize_Some [of tree "contents (chain st ! i)" hh]
    obtain t where t: "tree = Some t" "tree_hash t = hh" by (auto simp: h'_def)
    have m: "\<not> isMaterialized (contents (chain st1 ! i))"
      by (simp add: c1i hh isMaterialized_def)
    have st3: "st3 = st1" "r3 = Inr False" using r3 t m by (simp_all add: st2_def)
    have X1: "nodeId (chain st1 ! i) = X" by (simp add: n1 X_def)
    have others: "\<forall>k<length (chain st1). k \<noteq> Suc i \<longrightarrow> noRef X (contents (chain st1 ! k))"
    proof (intro allI impI)
      fix k assume k: "k < length (chain st1)" "k \<noteq> Suc i"
      with o have "noRef X (contents (chain st ! k))"
        by (simp add: onlyParentRefers_def Let_def X_def l1)
      then show "noRef X (contents (chain st1 ! k))"
        by (cases "k = i") (simp_all add: c1i k1)
    qed
    have above: "\<forall>k<length (chain st1). Suc i \<le> k \<longrightarrow> nodeId (chain st1 ! k) \<noteq> X"
      using o by (simp add: onlyParentRefers_def Let_def X_def l1 n1)
    define L where "L \<longleftrightarrow> Suc i < length (chain st) \<and> \<not> location_unlinked (chain st ! i)"
    show ?thesis
    proof (cases "treeHash (contents (chain st ! i)) \<noteq> h'")
      case False
      then have "snd (saveOverlayPostCheckout ctx tree now i st) = st1"
        unfolding unf t1 st3 by simp
      with s1 show ?thesis by simp
    next
      case ch: True
      show ?thesis
      proof (cases L)
        case False
        then have res: "snd (saveOverlayPostCheckout ctx tree now i st) = removeOverlayData X st1"
          unfolding unf t1 st3 using ch m by (auto simp: L_def l1 n1 X_def)
        from o False have
          "Suc i < length (chain st) \<longrightarrow> noRef X (contents (chain st ! Suc i))"
          "\<forall>n d. overlay st n = Some (OverlayDir d) \<longrightarrow> noRef X d"
          by (simp_all add: onlyParentRefers_def Let_def X_def L_def)
        with others have "unreferenced X st1"
          unfolding unreferenced_def ov1 l1
          by (metis Suc_n_not_le_n k1 le_refl l1 n_not_Suc_n)
        from stepsConsistent_removeOverlayData [OF c1 this] s1 res show ?thesis
          by (simp add: stepsConsistent_trans)
      next
        case True
        then have S: "Suc i < length (chain st1)" by (simp add: L_def l1)
        obtain q st4 where q: "childDematerialized (Suc i) nm hh st1 = (q, st4)"
          by (cases "childDematerialized (Suc i) nm hh st1") auto
        have res: "snd (saveOverlayPostCheckout ctx tree now i st)
            = (case q of Some ex \<Rightarrow> st4 | None \<Rightarrow> removeOverlayData (nodeId (chain st4 ! i)) st4)"
          unfolding unf t1 st3 using ch m True t q
          by (cases q) (simp_all add: L_def l1 n1 nm_def)
        from o True have
          named: "\<forall>p\<in>set (entries (contents (chain st1 ! Suc i))).
            isMaterializedE (snd p) \<and> inodeNumber (snd p) = Some X
              \<longrightarrow> fst p = nm \<and> pm_find (entries (contents (chain st1 ! Suc i))) nm = Some (snd p)"
          and disk: "\<forall>n d. overlay st1 n = Some (OverlayDir d) \<and> \<not> noRef X d
            \<longrightarrow> n = nodeId (chain st1 ! Suc i)
                \<and> (\<exists>e. pm_find (entries (contents (chain st1 ! Suc i))) nm = Some e
                       \<and> isMaterializedE e)"
          by (simp_all add: onlyParentRefers_def Let_def X_def nm_def L_def ov1 n1 k1)
        note run = childDematerialized_run [OF q S c1, of X]
        from run have s4: "stepsConsistent st1 st4" by simp
        note c4 = stepsConsistent_consistent [OF s4 c1]
        from run have "chain st4 ! i = chain st1 ! i" by simp
        then have X4: "nodeId (chain st4 ! i) = X" by (simp add: X1)
        from run others above named disk have u4: "unreferenced X st4" by blast
        show ?thesis
        proof (cases q)
          case None
          with res X4 have "snd (saveOverlayPostCheckout ctx tree now i st)
              = removeOverlayData X st4" by simp
          with stepsConsistent_removeOverlayData [OF c4 u4] s1 s4 show ?thesis
            by (metis stepsConsistent_trans)
        next
          case (Some ex)
          with res s1 s4 show ?thesis by (simp add: stepsConsistent_trans)
        qed
      qed
    qed
  qed
qed

lemma stepsConsistent_selfMaterialized:
  assumes i: "i < length (chain st)" and c: "consistent (chain st, overlay st)"
  shows "stepsConsistent st
     (saveOverlayDir (nodeId (chain st ! i)) (setMaterialized (contents (chain st ! i)))
        (setContents i (setMaterialized (contents (chain st ! i))) st))"
proof -
  define st1 where "st1 = setContents i (setMaterialized (contents (chain st ! i))) st"
  have s1: "stepsConsistent st st1"
    unfolding st1_def
    by (intro stepsConsistent_setContents [OF c]) (simp add: covered_member [OF c i])
  note c1 = stepsConsistent_consistent [OF s1 c]
  have "stepsConsistent st1 (saveOverlayDir (nodeId (chain st ! i))
      (setMaterialized (contents (chain st ! i))) st1)"
    by (intro stepsConsistent_saveOverlayDir [OF c1])
      (simp add: covered_member [OF c i] st1_def)
  with s1 show ?thesis unfolding st1_def by (rule stepsConsistent_trans)
qed

lemma materialize_passes_through:
  assumes i: "i < length (chain st)" and c: "consistent (chain st, overlay st)"
    and n: "\<not> isMaterialized (contents (chain st ! i))"
  shows "stepsConsistent
     (saveOverlayDir (nodeId (chain st ! i)) (setMaterialized (contents (chain st ! i)))
        (setContents i (setMaterialized (contents (chain st ! i))) st))
     (snd (materialize h i st))"
proof -
  define mid where "mid = saveOverlayDir (nodeId (chain st ! i))
      (setMaterialized (contents (chain st ! i)))
      (setContents i (setMaterialized (contents (chain st ! i))) st)"
  have sm: "stepsConsistent st mid"
    unfolding mid_def by (rule stepsConsistent_selfMaterialized [OF i c])
  note cm = stepsConsistent_consistent [OF sm c]
  have ov: "overlay mid (nodeId (chain st ! i)) \<noteq> None" by (simp add: mid_def)
  have len: "length (chain mid) = length (chain st)" by (simp add: mid_def)
  show ?thesis
  proof (cases "Suc i < length (chain st) \<and> \<not> location_unlinked (chain st ! i)")
    case False
    with n i have "materialize h i st = (None, mid)"
      by (auto simp: materialize_unfold mid_def)
    then show ?thesis by (simp add: mid_def [symmetric] stepsConsistent_refl)
  next
    case True
    obtain r st' where rec: "childMaterialized (Suc i) (location_name (chain st ! i))
        (nodeId (chain st ! i)) mid = (r, st')"
      by (cases "childMaterialized (Suc i) (location_name (chain st ! i))
        (nodeId (chain st ! i)) mid") auto
    from n True i rec have run: "materialize h i st = (r, st')"
      by (simp add: materialize_unfold mid_def)
    from stepsConsistent_childMaterialized [OF rec] True cm ov len
    have "stepsConsistent mid st'" by simp
    with run show ?thesis by (simp add: mid_def [symmetric])
  qed
qed

lemma childMaterialized_passes_through:
  assumes i: "i < length (chain st)" and c: "consistent (chain st, overlay st)"
    and e: "pm_find (entries (contents (chain st ! i))) cn = Some e"
    and n: "\<not> (isMaterialized (contents (chain st ! i)) \<and> isMaterializedE e)"
    and p: "overlay st cid \<noteq> None"
  shows "stepsConsistent (markChildMaterialized i cn cid e st)
     (snd (childMaterialized i cn cid st))"
proof -
  define m where "m = markChildMaterialized i cn cid e st"
  have sm: "stepsConsistent st m"
    unfolding m_def by (rule stepsConsistent_markChildMaterialized [OF c i p])
  note cm = stepsConsistent_consistent [OF sm c]
  have ov: "overlay m (nodeId (chain st ! i)) \<noteq> None"
    by (simp add: m_def markChildMaterialized_overlay [OF i])
  show ?thesis
  proof (cases "Suc i < length (chain st) \<and> \<not> location_unlinked (chain st ! i)")
    case False
    with e n have "childMaterialized i cn cid st = (None, m)"
      by (auto simp: childMaterialized_unfold [of i] m_def)
    then show ?thesis by (simp add: m_def [symmetric] stepsConsistent_refl)
  next
    case True
    obtain r st' where rec: "childMaterialized (Suc i) (location_name (chain st ! i))
        (nodeId (chain st ! i)) m = (r, st')"
      by (cases "childMaterialized (Suc i) (location_name (chain st ! i))
        (nodeId (chain st ! i)) m") auto
    from e n True rec have run: "childMaterialized i cn cid st = (r, st')"
      by (auto simp: childMaterialized_unfold [of i] m_def)
    from stepsConsistent_childMaterialized [OF rec] True cm ov
    have "stepsConsistent m st'" by (simp add: m_def)
    with run show ?thesis by (simp add: m_def [symmetric])
  qed
qed

lemma saveOverlayPostCheckout_stays_materialized:
  assumes i: "i < length (chain st)" and c: "consistent (chain st, overlay st)"
    and nd: "\<not> isDryRun ctx"
    and hN: "tryToDematerialize tree (contents (chain st ! i)) = None"
  shows "stepsConsistent
     (saveOverlayDir (nodeId (chain st ! i)) ((contents (chain st ! i))\<lparr>treeHash := None\<rparr>)
        (setContents i ((contents (chain st ! i))\<lparr>treeHash := None\<rparr>) st))
     (snd (saveOverlayPostCheckout ctx tree now i st))"
proof -
  define X where "X = nodeId (chain st ! i)"
  define st1 where "st1 = setContents i ((contents (chain st ! i))
              \<lparr>treeHash := tryToDematerialize tree (contents (chain st ! i))\<rparr>) st"
  define st2 where "st2 = (if isMaterialized (contents (chain st1 ! i))
                then saveOverlayDir (nodeId (chain st1 ! i)) (contents (chain st1 ! i)) st1
                else st1)"
  obtain r3 st3 where r3: "(if tree = None \<and> entries (contents (chain st ! i)) = []
          then checkoutTryRemoveEmptyDir now i st2 else (Inr False, st2)) = (r3, st3)"
    by (cases "if tree = None \<and> entries (contents (chain st ! i)) = []
          then checkoutTryRemoveEmptyDir now i st2 else (Inr False, st2)") auto
  note unf = saveOverlayPostCheckout_unfold [OF nd st1_def st2_def r3]
  have s1: "stepsConsistent st st1"
    unfolding st1_def
    by (intro stepsConsistent_setContents [OF c]) (simp add: covered_member [OF c i])
  note c1 = stepsConsistent_consistent [OF s1 c]
  have c1i: "contents (chain st1 ! i) = (contents (chain st ! i))\<lparr>treeHash := None\<rparr>"
    using i by (simp add: st1_def hN)
  have n1: "nodeId (chain st1 ! k) = nodeId (chain st ! k)" for k
    by (simp add: st1_def)
  have l1: "length (chain st1) = length (chain st)" by (simp add: st1_def)
  have t1: "treeHash (contents (chain st1 ! i)) = None" by (simp add: c1i)
  have m: "isMaterialized (contents (chain st1 ! i))"
    by (simp add: c1i isMaterialized_def)
  have st2: "st2 = saveOverlayDir X (contents (chain st1 ! i)) st1"
    by (simp add: st2_def m n1 X_def)
  have goal: "saveOverlayDir (nodeId (chain st ! i)) ((contents (chain st ! i))\<lparr>treeHash := None\<rparr>)
        (setContents i ((contents (chain st ! i))\<lparr>treeHash := None\<rparr>) st) = st2"
    by (simp add: st2 c1i X_def) (simp add: st1_def hN)
  have s2: "stepsConsistent st1 st2"
    unfolding st2
    by (intro stepsConsistent_saveOverlayDir [OF c1] covered_member [OF c1]) (simp add: l1 i)
  note c2 = stepsConsistent_consistent [OF s2 c1]
  have o2: "overlay st2 X \<noteq> None" by (simp add: st2)
  have i2: "i < length (chain st2)" "nodeId (chain st2 ! i) = X"
    using i by (simp_all add: st2 l1 n1 X_def)
  have s3: "stepsConsistent st2 st3"
    using r3 checkoutTryRemoveEmptyDir_steps [OF c2, of now i]
    by (auto simp: stepsConsistent_refl split: if_splits)
  note c3 = stepsConsistent_consistent [OF s3 c2]
  define P where "P \<longleftrightarrow> r3 = Inr False \<and> treeHash (contents (chain st ! i)) \<noteq> None
      \<and> Suc i < length (chain st3) \<and> \<not> location_unlinked (chain st3 ! i)"
  have "stepsConsistent st2 (snd (saveOverlayPostCheckout ctx tree now i st))"
  proof (cases P)
    case False
    then have "snd (saveOverlayPostCheckout ctx tree now i st) = st3"
      unfolding unf P_def t1 using m
      by (cases r3) (auto split: bool.splits)
    with s3 show ?thesis by simp
  next
    case True
    then have p: "r3 = Inr False" "treeHash (contents (chain st ! i)) \<noteq> None"
      "Suc i < length (chain st3)" "\<not> location_unlinked (chain st3 ! i)"
      by (simp_all add: P_def)
    obtain q st4 where q: "childMaterialized (Suc i) (location_name (chain st3 ! i))
        (nodeId (chain st3 ! i)) st3 = (q, st4)"
      by (cases "childMaterialized (Suc i) (location_name (chain st3 ! i))
        (nodeId (chain st3 ! i)) st3") auto
    have res: "snd (saveOverlayPostCheckout ctx tree now i st) = st4"
      unfolding unf t1 using p m q by (cases q) simp_all
    from r3 p(1) have "st3 = st2 \<or> (\<exists>r0. materialize True (Suc i) st2 = (r0, st3))"
      using checkoutTryRemoveEmptyDir_failure [of now i st2 st3]
      by (auto split: if_splits)
    then have "overlay st3 X \<noteq> None \<and> nodeId (chain st3 ! i) = X"
    proof
      assume "st3 = st2"
      with o2 i2 show ?thesis by simp
    next
      assume "\<exists>r0. materialize True (Suc i) st2 = (r0, st3)"
      then obtain r0 where r0: "materialize True (Suc i) st2 = (r0, st3)" by blast
      from materialize_overlay_grows [OF r0 o2] materialize_frame [OF r0]
        locations_nth(1) [of st3 st2 i] i2
      show ?thesis by simp
    qed
    with stepsConsistent_childMaterialized [OF q] p(3) c3
    have "stepsConsistent st3 st4" by simp
    with s3 res show ?thesis by (simp add: stepsConsistent_trans)
  qed
  then show ?thesis by (simp only: goal)
qed

lemma saveOverlayPostCheckout_dematerialized:
  assumes i: "i < length (chain st)" and c: "consistent (chain st, overlay st)"
    and nd: "\<not> isDryRun ctx"
    and hS: "tryToDematerialize tree (contents (chain st ! i)) = Some hh"
    and ch: "treeHash (contents (chain st ! i)) \<noteq> Some hh"
  shows "saveOverlayPostCheckout ctx tree now i st =
     (case (if Suc i < length (chain st) \<and> \<not> location_unlinked (chain st ! i)
            then childDematerialized (Suc i) (location_name (chain st ! i)) hh
                   (setContents i ((contents (chain st ! i))\<lparr>treeHash := Some hh\<rparr>) st)
            else (None, setContents i ((contents (chain st ! i))\<lparr>treeHash := Some hh\<rparr>) st)) of
        (Some ex, st4) \<Rightarrow> (Some ex, st4)
      | (None, st4) \<Rightarrow> (None, removeOverlayData (nodeId (chain st ! i)) st4))"
proof -
  define st1 where "st1 = setContents i ((contents (chain st ! i))
              \<lparr>treeHash := tryToDematerialize tree (contents (chain st ! i))\<rparr>) st"
  define st2 where "st2 = (if isMaterialized (contents (chain st1 ! i))
                then saveOverlayDir (nodeId (chain st1 ! i)) (contents (chain st1 ! i)) st1
                else st1)"
  from tryToDematerialize_Some [OF hS]
  obtain t where t: "tree = Some t" "tree_hash t = hh" by auto
  have st1: "st1 = setContents i ((contents (chain st ! i))\<lparr>treeHash := Some hh\<rparr>) st"
    by (simp add: st1_def hS)
  have c1i: "contents (chain st1 ! i) = (contents (chain st ! i))\<lparr>treeHash := Some hh\<rparr>"
    using i by (simp add: st1)
  have m: "\<not> isMaterialized (contents (chain st1 ! i))"
    by (simp add: c1i isMaterialized_def)
  have r3: "(if tree = None \<and> entries (contents (chain st ! i)) = []
          then checkoutTryRemoveEmptyDir now i st2 else (Inr False, st2)) = (Inr False, st1)"
    using t m by (simp add: st2_def)
  note unf = saveOverlayPostCheckout_unfold [OF nd st1_def st2_def r3]
  have s1: "stepsConsistent st st1"
    unfolding st1
    by (intro stepsConsistent_setContents [OF c]) (simp add: covered_member [OF c i])
  note c1 = stepsConsistent_consistent [OF s1 c]
  have n1: "nodeId (chain st1 ! k) = nodeId (chain st ! k)"
    "location_name (chain st1 ! k) = location_name (chain st ! k)"
    "location_unlinked (chain st1 ! k) = location_unlinked (chain st ! k)" for k
    by (simp_all add: st1)
  have l1: "length (chain st1) = length (chain st)" by (simp add: st1)
  have t1: "treeHash (contents (chain st1 ! i)) = Some hh" by (simp add: c1i)
  show ?thesis
  proof (cases "Suc i < length (chain st) \<and> \<not> location_unlinked (chain st ! i)")
    case False
    then show ?thesis
      unfolding unf t1 using ch m by (auto simp: l1 n1 st1 [symmetric])
  next
    case True
    then have S: "Suc i < length (chain st1)" by (simp add: l1)
    obtain q st4 where q: "childDematerialized (Suc i) (location_name (chain st ! i)) hh st1
        = (q, st4)"
      by (cases "childDematerialized (Suc i) (location_name (chain st ! i)) hh st1") auto
    from childDematerialized_run [OF q S c1, of "nodeId (chain st ! i)"]
    have "chain st4 ! i = chain st1 ! i" by simp
    then have "nodeId (chain st4 ! i) = nodeId (chain st ! i)" by (simp add: n1)
    with True q show ?thesis
      unfolding unf t1 using ch m t
      by (cases q) (simp_all add: l1 n1 st1 [symmetric])
  qed
qed



end
